theory Spec2Isabelle
  imports Complex_Main "HOL-Library.AList"
begin

section \<open>BoundingBox: the spatiotemporal index key of \<open>torchgeo/datasets/utils.py\<close>\<close>

text \<open>
  The frozen dataclass \<open>BoundingBox\<close> has six float fields. The coordinate type
  is a parameter of the definitions: they use the fields through the comparisons
  \<open><\<close> and \<open>\<le>\<close> and through \<open>+\<close>, \<open>-\<close> and \<open>*\<close>, which are the operations of the
  coordinate type, whatever they are. The set algebra is stated below for any
  linear order (comparisons are exact on floats, and the floats without NaN are
  linearly ordered); \<open>split\<close> computes, so it is stated for the doubles themselves,
  with their rounding, their infinities and NaN.
\<close>

record 'a BoundingBox =
  minx :: 'a
  maxx :: 'a
  miny :: 'a
  maxy :: 'a
  mint :: 'a
  maxt :: 'a

text \<open>
  The exceptions raised by the class. The first five are Python's \<open>ValueError\<close>
  with the five messages of the source (the offending pair, the two operands, the
  proportion message); the last is the \<open>IndexError\<close> of list indexing.
\<close>

datatype 'a box_error =
  ValueError_minx 'a 'a
| ValueError_miny 'a 'a
| ValueError_mint 'a 'a
| ValueError_no_overlap "'a BoundingBox" "'a BoundingBox"
| ValueError_proportion
| IndexError

text \<open>\<open>__post_init__\<close>: three checks in the order of the source, each raising on its own pair.\<close>

definition post_init :: "('a::ord) BoundingBox \<Rightarrow> 'a box_error + 'a BoundingBox" where
  "post_init b =
     (if minx b > maxx b then Inl (ValueError_minx (minx b) (maxx b))
      else if miny b > maxy b then Inl (ValueError_miny (miny b) (maxy b))
      else if mint b > maxt b then Inl (ValueError_mint (mint b) (maxt b))
      else Inr b)"

text \<open>The constructor call \<open>BoundingBox(x0, x1, y0, y1, t0, t1)\<close>: build, then validate.\<close>

definition BoundingBox_new ::
  "('a::ord) \<Rightarrow> 'a \<Rightarrow> 'a \<Rightarrow> 'a \<Rightarrow> 'a \<Rightarrow> 'a \<Rightarrow> 'a box_error + 'a BoundingBox" where
  "BoundingBox_new x0 x1 y0 y1 t0 t1 =
     post_init \<lparr>minx = x0, maxx = x1, miny = y0, maxy = y1, mint = t0, maxt = t1\<rparr>"

text \<open>
  A box is valid when \<open>min \<le> max\<close> holds on each axis. On a linear order these are
  the boxes that can exist as objects, those whose fields the constructor accepts.
  The constructor tests \<open>min > max\<close>, so it also accepts a NaN bound, which compares
  false; such a box is not valid.
\<close>

definition valid_box :: "('a::ord) BoundingBox \<Rightarrow> bool" where
  "valid_box b \<longleftrightarrow> minx b \<le> maxx b \<and> miny b \<le> maxy b \<and> mint b \<le> maxt b"

text \<open>
  Indexing a Python list with an integer: a negative index counts from the end, and
  an index outside \<open>-len .. len - 1\<close> raises \<open>IndexError\<close>.
\<close>

definition list_getitem :: "'a list \<Rightarrow> int \<Rightarrow> 'a box_error + 'a" where
  "list_getitem xs i =
     (let n = int (length xs); j = (if i < 0 then i + n else i)
      in if 0 \<le> j \<and> j < n then Inr (xs ! nat j) else Inl IndexError)"

text \<open>\<open>__getitem__\<close> with an integer key (the slice overload is not modelled).\<close>

definition getitem :: "'a BoundingBox \<Rightarrow> int \<Rightarrow> 'a box_error + 'a" where
  "getitem b key = list_getitem [minx b, maxx b, miny b, maxy b, mint b, maxt b] key"

text \<open>\<open>__iter__\<close>: the six bounds in the fixed order.\<close>

definition iter :: "'a BoundingBox \<Rightarrow> 'a list" where
  "iter b = [minx b, maxx b, miny b, maxy b, mint b, maxt b]"

text \<open>\<open>__contains__\<close>: \<open>other in self\<close>, twelve inequalities.\<close>

definition contains :: "('a::ord) BoundingBox \<Rightarrow> 'a BoundingBox \<Rightarrow> bool" where
  "contains self other \<longleftrightarrow>
     (minx self \<le> minx other \<and> minx other \<le> maxx self)
   \<and> (minx self \<le> maxx other \<and> maxx other \<le> maxx self)
   \<and> (miny self \<le> miny other \<and> miny other \<le> maxy self)
   \<and> (miny self \<le> maxy other \<and> maxy other \<le> maxy self)
   \<and> (mint self \<le> mint other \<and> mint other \<le> maxt self)
   \<and> (mint self \<le> maxt other \<and> maxt other \<le> maxt self)"

text \<open>
  Python's \<open>min(a, b)\<close> and \<open>max(a, b)\<close>: the first argument, unless the second is
  strictly smaller (strictly greater). On a linear order they are the minimum and
  the maximum; with a NaN, which compares false, the first argument stays.
\<close>

definition py_min :: "('a::ord) \<Rightarrow> 'a \<Rightarrow> 'a" where
  "py_min a b = (if b < a then b else a)"

definition py_max :: "('a::ord) \<Rightarrow> 'a \<Rightarrow> 'a" where
  "py_max a b = (if b > a then b else a)"

text \<open>\<open>__or__\<close>: the union goes through the constructor, like every new box.\<close>

definition union :: "('a::ord) BoundingBox \<Rightarrow> 'a BoundingBox \<Rightarrow> 'a box_error + 'a BoundingBox" where
  "union self other =
     BoundingBox_new
       (py_min (minx self) (minx other)) (py_max (maxx self) (maxx other))
       (py_min (miny self) (miny other)) (py_max (maxy self) (maxy other))
       (py_min (mint self) (mint other)) (py_max (maxt self) (maxt other))"

text \<open>
  \<open>__and__\<close>: the constructor's \<open>ValueError\<close> is caught and replaced by the one that
  names both operands.
\<close>

definition intersect :: "('a::ord) BoundingBox \<Rightarrow> 'a BoundingBox \<Rightarrow> 'a box_error + 'a BoundingBox" where
  "intersect self other =
     (case BoundingBox_new
             (py_max (minx self) (minx other)) (py_min (maxx self) (maxx other))
             (py_max (miny self) (miny other)) (py_min (maxy self) (maxy other))
             (py_max (mint self) (mint other)) (py_min (maxt self) (maxt other)) of
        Inl _ \<Rightarrow> Inl (ValueError_no_overlap self other)
      | Inr b \<Rightarrow> Inr b)"

definition area :: "('a::{minus,times}) BoundingBox \<Rightarrow> 'a" where
  "area b = (maxx b - minx b) * (maxy b - miny b)"

definition volume :: "('a::{minus,times}) BoundingBox \<Rightarrow> 'a" where
  "volume b = area b * (maxt b - mint b)"

text \<open>\<open>intersects\<close>: six comparisons, no box is built.\<close>

definition intersects :: "('a::ord) BoundingBox \<Rightarrow> 'a BoundingBox \<Rightarrow> bool" where
  "intersects self other \<longleftrightarrow>
     minx self \<le> maxx other \<and> maxx self \<ge> minx other
   \<and> miny self \<le> maxy other \<and> maxy self \<ge> miny other
   \<and> mint self \<le> maxt other \<and> maxt self \<ge> mint other"

text \<open>
  \<open>split\<close>: the proportion check first, then the split point in the arithmetic of
  the coordinate type, then two constructor calls, the first failure being raised.
  \<open>self\<close> is only read: the class is frozen and the method assigns to no field.
\<close>

definition split ::
  "('a::{ord,plus,minus,times,zero,one}) BoundingBox \<Rightarrow> 'a \<Rightarrow> bool \<Rightarrow>
   'a box_error + ('a BoundingBox \<times> 'a BoundingBox)" where
  "split self proportion horizontal =
     (if \<not> (0 < proportion \<and> proportion < 1) then Inl ValueError_proportion
      else if horizontal then
        (let w = maxx self - minx self;
             splitx = minx self + w * proportion
         in case BoundingBox_new (minx self) splitx (miny self) (maxy self) (mint self) (maxt self) of
              Inl e \<Rightarrow> Inl e
            | Inr bbox1 \<Rightarrow>
               (case BoundingBox_new splitx (maxx self) (miny self) (maxy self) (mint self) (maxt self) of
                  Inl e \<Rightarrow> Inl e
                | Inr bbox2 \<Rightarrow> Inr (bbox1, bbox2)))
      else
        (let h = maxy self - miny self;
             splity = miny self + h * proportion
         in case BoundingBox_new (minx self) (maxx self) (miny self) splity (mint self) (maxt self) of
              Inl e \<Rightarrow> Inl e
            | Inr bbox1 \<Rightarrow>
               (case BoundingBox_new (minx self) (maxx self) splity (maxy self) (mint self) (maxt self) of
                  Inl e \<Rightarrow> Inl e
                | Inr bbox2 \<Rightarrow> Inr (bbox1, bbox2))))"



section \<open>Doubles\<close>

text \<open>
  The IEEE 754 doubles: NaN, \<open>-\<infinity>\<close>, the finite numbers and \<open>+\<infinity>\<close>. A finite double
  is given by its value; every result of an operation is rounded, so it is a
  representable value. The two zeros are one value, which no comparison tells
  apart. A comparison with NaN is false, so the order is not reflexive and the
  doubles are no linear order; without NaN they are one.
\<close>

datatype double = NaN | NInf | Fin real | PInf

fun lt_double :: "double \<Rightarrow> double \<Rightarrow> bool" where
  "lt_double NaN b = False"
| "lt_double a NaN = False"
| "lt_double (Fin x) (Fin y) = (x < y)"
| "lt_double a NInf = False"
| "lt_double PInf b = False"
| "lt_double NInf b = True"
| "lt_double a PInf = True"

fun le_double :: "double \<Rightarrow> double \<Rightarrow> bool" where
  "le_double NaN b = False"
| "le_double a NaN = False"
| "le_double (Fin x) (Fin y) = (x \<le> y)"
| "le_double NInf b = True"
| "le_double a PInf = True"
| "le_double a NInf = False"
| "le_double PInf b = False"

instantiation double :: ord
begin

definition less_eq_double :: "double \<Rightarrow> double \<Rightarrow> bool" where
  "less_eq_double a b = le_double a b"

definition less_double :: "double \<Rightarrow> double \<Rightarrow> bool" where
  "less_double a b = lt_double a b"

instance ..

end

text \<open>
  Rounding to nearest, ties to even. A real \<open>x\<close> with \<open>2^e \<le> |x| < 2^(e+1)\<close> lies on
  or between two doubles that are \<open>2^(e-52)\<close> apart (53 significant bits); below
  \<open>2^-1022\<close> the spacing stays \<open>2^-1074\<close> (subnormal numbers). A rounded value of
  magnitude \<open>2^1024\<close> or more is an overflow and gives an infinity.
\<close>

definition ties_even :: "real \<Rightarrow> int" where
  "ties_even y =
     (let f = \<lfloor>y\<rfloor>; d = y - of_int f
      in if d < 1 / 2 then f else if 1 / 2 < d then f + 1 else if even f then f else f + 1)"

definition quantum :: "real \<Rightarrow> real" where
  "quantum x = 2 powi (max \<lfloor>log 2 \<bar>x\<bar>\<rfloor> (- 1022) - 52)"

definition round_real :: "real \<Rightarrow> real" where
  "round_real x = (if x = 0 then 0 else of_int (ties_even (x / quantum x)) * quantum x)"

definition round_double :: "real \<Rightarrow> double" where
  "round_double x =
     (let r = round_real x
      in if 2 ^ 1024 \<le> r then PInf else if r \<le> - (2 ^ 1024) then NInf else Fin r)"

text \<open>
  The operations: a NaN operand gives NaN, and so do \<open>\<infinity> - \<infinity>\<close> and \<open>0 * \<infinity>\<close>; an
  infinity absorbs a finite number; two finite numbers give the rounded result.
\<close>

fun double_add :: "double \<Rightarrow> double \<Rightarrow> double" where
  "double_add NaN b = NaN"
| "double_add a NaN = NaN"
| "double_add (Fin x) (Fin y) = round_double (x + y)"
| "double_add PInf NInf = NaN"
| "double_add NInf PInf = NaN"
| "double_add PInf b = PInf"
| "double_add NInf b = NInf"
| "double_add a PInf = PInf"
| "double_add a NInf = NInf"

fun double_neg :: "double \<Rightarrow> double" where
  "double_neg NaN = NaN"
| "double_neg NInf = PInf"
| "double_neg (Fin x) = Fin (- x)"
| "double_neg PInf = NInf"

definition double_sub :: "double \<Rightarrow> double \<Rightarrow> double" where
  "double_sub a b = double_add a (double_neg b)"

fun double_mul :: "double \<Rightarrow> double \<Rightarrow> double" where
  "double_mul NaN b = NaN"
| "double_mul a NaN = NaN"
| "double_mul (Fin x) (Fin y) = round_double (x * y)"
| "double_mul PInf (Fin y) = (if 0 < y then PInf else if y < 0 then NInf else NaN)"
| "double_mul NInf (Fin y) = (if 0 < y then NInf else if y < 0 then PInf else NaN)"
| "double_mul (Fin x) PInf = (if 0 < x then PInf else if x < 0 then NInf else NaN)"
| "double_mul (Fin x) NInf = (if 0 < x then NInf else if x < 0 then PInf else NaN)"
| "double_mul PInf PInf = PInf"
| "double_mul PInf NInf = NInf"
| "double_mul NInf PInf = NInf"
| "double_mul NInf NInf = PInf"

instantiation double :: "{zero,one,plus,minus,times}"
begin

definition zero_double :: double where
  "zero_double = Fin 0"

definition one_double :: double where
  "one_double = Fin 1"

definition plus_double :: "double \<Rightarrow> double \<Rightarrow> double" where
  "plus_double a b = double_add a b"

definition minus_double :: "double \<Rightarrow> double \<Rightarrow> double" where
  "minus_double a b = double_sub a b"

definition times_double :: "double \<Rightarrow> double \<Rightarrow> double" where
  "times_double a b = double_mul a b"

instance ..

end




section \<open>Executable: running an external command\<close>

text \<open>
  Keyword arguments are a Python dict from names to objects, kept as an association
  list with the dict's update (\<open>AList.update\<close>: an existing key keeps its place, a
  new key goes last). Only the kinds of object that matter here are distinguished.
\<close>

datatype pyobj = PyNone | PyBool bool | PyInt int | PyStr string

type_synonym kwargs = "(string \<times> pyobj) list"

text \<open>Python's truth value of an object.\<close>

fun truthy :: "pyobj \<Rightarrow> bool" where
  "truthy PyNone = False"
| "truthy (PyBool b) = b"
| "truthy (PyInt n) = (n \<noteq> 0)"
| "truthy (PyStr s) = (s \<noteq> [])"

record CompletedProcess =
  cp_args :: "string list"
  returncode :: int
  stdout :: "string option"
  stderr :: "string option"

text \<open>
  What running a command can raise: \<open>CalledProcessError\<close> with the exit status, the
  command and the captured output, or whatever starting and waiting for the child
  raised (\<open>OSError\<close>, \<open>TimeoutExpired\<close>, ...), kept as its text.
\<close>

datatype proc_error =
  CalledProcessError int "string list" "string option" "string option"
| ChildError string

text \<open>
  The operating system is a parameter: \<open>child cmd kw\<close> is what starting \<open>cmd\<close> with
  the remaining keyword arguments and waiting for it gives, either an exception or
  the exit status with the captured output.
\<close>

type_synonym child = "string list \<Rightarrow> kwargs \<Rightarrow> proc_error + (int \<times> string option \<times> string option)"

text \<open>
  \<open>subprocess.run\<close> of the standard library, after its documentation: \<open>check\<close> is a
  parameter of \<open>run\<close> itself (default \<open>False\<close>), the other keyword arguments go to
  the child; when \<open>check\<close> is true and the exit status is nonzero,
  \<open>CalledProcessError\<close> is raised, otherwise the \<open>CompletedProcess\<close> is returned.
\<close>

definition subprocess_run :: "child \<Rightarrow> string list \<Rightarrow> kwargs \<Rightarrow> proc_error + CompletedProcess" where
  "subprocess_run os popenargs kw =
     (let check = (case map_of kw ''check'' of None \<Rightarrow> False | Some v \<Rightarrow> truthy v)
      in case os popenargs (AList.delete ''check'' kw) of
           Inl e \<Rightarrow> Inl e
         | Inr (retcode, out, err) \<Rightarrow>
             if check \<and> retcode \<noteq> 0 then Inl (CalledProcessError retcode popenargs out err)
             else Inr \<lparr>cp_args = popenargs, returncode = retcode, stdout = out, stderr = err\<rparr>)"

text \<open>\<open>Executable.__call__\<close>: \<open>kwargs['check'] = True\<close>, then \<open>subprocess.run((self.name, *args), **kwargs)\<close>.\<close>

definition Executable_call :: "child \<Rightarrow> string \<Rightarrow> string list \<Rightarrow> kwargs \<Rightarrow> proc_error + CompletedProcess" where
  "Executable_call os name args kw =
     subprocess_run os (name # args) (AList.update ''check'' (PyBool True) kw)"

text \<open>An example operating system: the command \<open>true\<close> exits with 0, every other one with 1.\<close>

definition example_child :: child where
  "example_child cmd kw = Inr (if cmd = [''true''] then 0 else 1, None, None)"

section \<open>File discovery over virtual file systems\<close>

text \<open>Python's \<open>s.startswith(p)\<close> and \<open>needle in s\<close> on strings.\<close>

fun startswith :: "string \<Rightarrow> string \<Rightarrow> bool" where
  "startswith s [] = True"
| "startswith [] (p # ps) = False"
| "startswith (c # s) (p # ps) = (c = p \<and> startswith s ps)"

fun str_contains :: "string \<Rightarrow> string \<Rightarrow> bool" where
  "str_contains [] needle = (needle = [])"
| "str_contains (c # s) needle = (startswith (c # s) needle \<or> str_contains s needle)"

definition path_is_gdal_vsi :: "string \<Rightarrow> bool" where
  "path_is_gdal_vsi path \<longleftrightarrow> str_contains path ''://'' \<or> startswith path ''/vsi''"

text \<open>
  The driver \<open>fiona.listdir\<close> is a parameter: for a path it returns the names of the
  children, raises \<open>FionaValueError\<close> with a message, or raises an exception of
  another class.
\<close>

datatype listdir_result =
  Children "string list"
| Raises_FionaValueError string
| Raises_other string

datatype vfs_error = FionaValueError string | OtherException string

text \<open>
  The loop of \<open>listdir_vfs_recursive\<close>, with its two variables as arguments. \<open>dirs\<close>
  is a stack whose top is the end of the list. The walk need not end (a driver may
  list children for ever), so not returning is the value \<open>None\<close>.
\<close>

partial_function (option) vfs_walk ::
  "(string \<Rightarrow> listdir_result) \<Rightarrow> string list \<Rightarrow> string list \<Rightarrow> (vfs_error + string list) option" where
  "vfs_walk listdir dirs files =
     (if dirs = [] then Some (Inr files)
      else case listdir (last dirs) of
             Children subdirs \<Rightarrow>
               vfs_walk listdir (butlast dirs @ map (\<lambda>subdir. last dirs @ ''/'' @ subdir) subdirs) files
           | Raises_FionaValueError msg \<Rightarrow>
               if str_contains msg ''is not a directory''
               then vfs_walk listdir (butlast dirs) (files @ [last dirs])
               else Some (Inl (FionaValueError msg))
           | Raises_other e \<Rightarrow> Some (Inl (OtherException e)))"

definition listdir_vfs_recursive ::
  "(string \<Rightarrow> listdir_result) \<Rightarrow> string \<Rightarrow> (vfs_error + string list) option" where
  "listdir_vfs_recursive listdir root_dir = vfs_walk listdir [root_dir] []"

text \<open>\<open>os.path.join\<close> on POSIX: a part that starts with \<open>/\<close> restarts the path.\<close>

definition join2 :: "string \<Rightarrow> string \<Rightarrow> string" where
  "join2 path part =
     (if startswith part ''/'' then part
      else if path = [] \<or> last path = CHR ''/'' then path @ part
      else path @ ''/'' @ part)"

definition os_path_join :: "string \<Rightarrow> string list \<Rightarrow> string" where
  "os_path_join a parts = foldl join2 a parts"

text \<open>
  \<open>list_directory_recursive\<close>. The pattern matcher of \<open>fnmatch\<close> and the local
  \<open>glob.iglob\<close> are parameters. In the virtual branch \<open>all_files\<close> starts empty and
  the \<open>except FionaValueError: pass\<close> clause encloses the whole walk.
\<close>

definition list_directory_recursive ::
  "(string \<Rightarrow> listdir_result) \<Rightarrow> (string \<Rightarrow> string \<Rightarrow> bool) \<Rightarrow> (string \<Rightarrow> string list) \<Rightarrow>
   string \<Rightarrow> string \<Rightarrow> (vfs_error + string list) option" where
  "list_directory_recursive listdir fnmatch iglob root_dir filename_glob =
     (if path_is_gdal_vsi root_dir then
        (case listdir_vfs_recursive listdir root_dir of
           None \<Rightarrow> None
         | Some (Inl (FionaValueError msg)) \<Rightarrow>
             Some (Inr (filter (\<lambda>name. fnmatch name (os_path_join ''*'' [filename_glob])) []))
         | Some (Inl (OtherException e)) \<Rightarrow> Some (Inl (OtherException e))
         | Some (Inr all_files) \<Rightarrow>
             Some (Inr (filter (\<lambda>name. fnmatch name (os_path_join ''*'' [filename_glob])) all_files)))
      else Some (Inr (iglob (os_path_join root_dir [''**'', filename_glob]))))"

text \<open>
  An example archive: the root lists a file and a subdirectory, and the driver
  reports that the subdirectory does not exist when the walk reaches it.
\<close>

definition example_listdir :: "string \<Rightarrow> listdir_result" where
  "example_listdir path =
     (if path = ''/vsizip/a.zip'' then Children [''sub'', ''x.tif'']
      else if path = ''/vsizip/a.zip/x.tif''
        then Raises_FionaValueError ''Path /vsizip/a.zip/x.tif is not a directory''
      else Raises_FionaValueError (''Path '' @ path @ '' does not exist''))"

section \<open>Disambiguating partial timestamps\<close>

text \<open>
  A naive \<open>datetime\<close> of the standard library, and the calendar arithmetic of its
  pure Python implementation (\<open>_days_before_year\<close>, \<open>_days_in_month\<close>, \<open>_ymd2ord\<close>,
  \<open>_ord2ymd\<close>): day 1 is 0001-01-01 of the proleptic Gregorian calendar.
\<close>

record datetime =
  year :: int
  month :: int
  day :: int
  hour :: int
  minute :: int
  second :: int
  microsecond :: int

datatype time_error = ValueError string | OverflowError

definition is_leap :: "int \<Rightarrow> bool" where
  "is_leap y \<longleftrightarrow> y mod 4 = 0 \<and> (y mod 100 \<noteq> 0 \<or> y mod 400 = 0)"

definition days_in_month :: "int \<Rightarrow> int \<Rightarrow> int" where
  "days_in_month y m =
     (if m = 2 then (if is_leap y then 29 else 28)
      else if m = 4 \<or> m = 6 \<or> m = 9 \<or> m = 11 then 30 else 31)"

definition days_before_year :: "int \<Rightarrow> int" where
  "days_before_year y = (y - 1) * 365 + (y - 1) div 4 - (y - 1) div 100 + (y - 1) div 400"

definition days_before_month :: "int \<Rightarrow> int \<Rightarrow> int" where
  "days_before_month y m = (\<Sum>k \<leftarrow> [1 ..< nat m]. days_in_month y (int k))"

definition ymd2ord :: "int \<Rightarrow> int \<Rightarrow> int \<Rightarrow> int" where
  "ymd2ord y m d = days_before_year y + days_before_month y m + d"

definition ord2ymd :: "int \<Rightarrow> int \<times> int \<times> int" where
  "ord2ymd n0 =
     (let n = n0 - 1;
          n400 = n div 146097; n = n mod 146097;
          n100 = n div 36524; n = n mod 36524;
          n4 = n div 1461; n = n mod 1461;
          n1 = n div 365; n = n mod 365;
          y = n400 * 400 + 1 + n100 * 100 + n4 * 4 + n1
      in if n1 = 4 \<or> n100 = 4 then (y - 1, 12, 31)
         else
           (let leapyear = (n1 = 3 \<and> (n4 \<noteq> 24 \<or> n100 = 3));
                m = (n + 50) div 32;
                preceding = days_before_month (if leapyear then 4 else 1) m
            in if preceding > n
               then (y, m - 1, n - (preceding - days_in_month (if leapyear then 4 else 1) (m - 1)) + 1)
               else (y, m, n - preceding + 1)))"

text \<open>
  The constructor \<open>datetime(y, m, d)\<close>: the time of day is midnight, and a field out
  of range raises \<open>ValueError\<close> (years run from 1 to 9999).
\<close>

definition datetime_new :: "int \<Rightarrow> int \<Rightarrow> int \<Rightarrow> time_error + datetime" where
  "datetime_new y m d =
     (if \<not> (1 \<le> y \<and> y \<le> 9999) then Inl (ValueError ''year is out of range'')
      else if \<not> (1 \<le> m \<and> m \<le> 12) then Inl (ValueError ''month must be in 1..12'')
      else if \<not> (1 \<le> d \<and> d \<le> days_in_month y m) then Inl (ValueError ''day is out of range for month'')
      else Inr \<lparr>year = y, month = m, day = d, hour = 0, minute = 0, second = 0, microsecond = 0\<rparr>)"

text \<open>Microseconds from the start of day 0 to the datetime, and back.\<close>

definition to_microseconds :: "datetime \<Rightarrow> int" where
  "to_microseconds dt =
     ((ymd2ord (year dt) (month dt) (day dt) * 86400
        + hour dt * 3600 + minute dt * 60 + second dt) * 1000000) + microsecond dt"

definition of_microseconds :: "int \<Rightarrow> datetime" where
  "of_microseconds us =
     (let days = us div 86400000000; r = us mod 86400000000;
          (y, m, d) = ord2ymd days
      in \<lparr>year = y, month = m, day = d,
          hour = r div 3600000000, minute = r mod 3600000000 div 60000000,
          second = r mod 60000000 div 1000000, microsecond = r mod 1000000\<rparr>)"

text \<open>
  A \<open>timedelta\<close> is its length in microseconds. \<open>datetime + timedelta\<close> raises
  \<open>OverflowError\<close> when the day leaves \<open>0001-01-01 .. 9999-12-31\<close>.
\<close>

definition timedelta :: "int \<Rightarrow> int \<Rightarrow> int \<Rightarrow> int \<Rightarrow> int \<Rightarrow> int" where
  "timedelta days hours minutes seconds microseconds =
     (((days * 24 + hours) * 60 + minutes) * 60 + seconds) * 1000000 + microseconds"

definition datetime_add :: "datetime \<Rightarrow> int \<Rightarrow> time_error + datetime" where
  "datetime_add dt delta =
     (let us = to_microseconds dt + delta; days = us div 86400000000
      in if 0 < days \<and> days \<le> 3652059 then Inr (of_microseconds us) else Inl OverflowError)"

text \<open>
  \<open>datetime.timestamp()\<close> of a naive datetime reads it as local time. The local
  zone is a parameter \<open>tz\<close>, the offset from UTC in seconds at a wall-clock time;
  the float result is read as an exact number of seconds.
\<close>

definition timestamp :: "(datetime \<Rightarrow> int) \<Rightarrow> datetime \<Rightarrow> real" where
  "timestamp tz dt =
     real_of_int (to_microseconds dt - ymd2ord 1970 1 1 * 86400000000 - tz dt * 1000000) / 1000000"

definition utc :: "datetime \<Rightarrow> int" where
  "utc dt = 0"

text \<open>\<open>format.replace('%%', '')\<close>: the occurrences are removed from left to right.\<close>

fun remove_percent_percent :: "string \<Rightarrow> string" where
  "remove_percent_percent (a # b # s) =
     (if a = CHR ''%'' \<and> b = CHR ''%'' then remove_percent_percent s
      else a # remove_percent_percent (b # s))"
| "remove_percent_percent s = s"

text \<open>\<open>any([f'%{c}' in format for c in cs])\<close>.\<close>

definition any_directive :: "string \<Rightarrow> string \<Rightarrow> bool" where
  "any_directive fmt cs = list_ex (\<lambda>c. str_contains fmt [CHR ''%'', c]) cs"

definition sys_maxsize :: real where
  "sys_maxsize = 2 ^ 63 - 1"

text \<open>
  \<open>disambiguate_timestamp\<close>. The parser \<open>datetime.strptime\<close> is a parameter; it is
  called first, with the format as given, and its \<open>ValueError\<close> is the result when
  the text does not match.
\<close>

definition disambiguate_timestamp ::
  "(datetime \<Rightarrow> int) \<Rightarrow> (string \<Rightarrow> string \<Rightarrow> time_error + datetime) \<Rightarrow>
   string \<Rightarrow> string \<Rightarrow> time_error + (real \<times> real)" where
  "disambiguate_timestamp tz strptime date_str format0 =
     (case strptime date_str format0 of
        Inl e \<Rightarrow> Inl e
      | Inr mint0 \<Rightarrow>
         (let fmt = remove_percent_percent format0
          in if \<not> any_directive fmt ''yYcxG'' then Inr (0, sys_maxsize)
             else
               (case
                  (if \<not> any_directive fmt ''bBmjUWcxV'' then datetime_new (year mint0 + 1) 1 1
                   else if \<not> any_directive fmt ''aAwdjcxV'' then
                     (if month mint0 = 12 then datetime_new (year mint0 + 1) 1 1
                      else datetime_new (year mint0) (month mint0 + 1) 1)
                   else if \<not> any_directive fmt ''HIcX'' then datetime_add mint0 (timedelta 1 0 0 0 0)
                   else if \<not> any_directive fmt ''McX'' then datetime_add mint0 (timedelta 0 1 0 0 0)
                   else if \<not> any_directive fmt ''ScX'' then datetime_add mint0 (timedelta 0 0 1 0 0)
                   else if \<not> any_directive fmt ''f'' then datetime_add mint0 (timedelta 0 0 0 1 0)
                   else datetime_add mint0 (timedelta 0 0 0 0 1)) of
                  Inl e \<Rightarrow> Inl e
                | Inr maxt0 \<Rightarrow>
                   (case datetime_add maxt0 (- timedelta 0 0 0 0 1) of
                      Inl e \<Rightarrow> Inl e
                    | Inr maxt1 \<Rightarrow> Inr (timestamp tz mint0, timestamp tz maxt1)))))"

text \<open>
  The two parses the examples need, as the library documents them: fields that the
  format does not name default to \<open>1900-01-01T00:00:00\<close>.
\<close>

definition example_strptime :: "string \<Rightarrow> string \<Rightarrow> time_error + datetime" where
  "example_strptime date_str fmt =
     (if date_str = ''2020'' \<and> fmt = ''%Y''
        then Inr \<lparr>year = 2020, month = 1, day = 1, hour = 0, minute = 0, second = 0, microsecond = 0\<rparr>
      else if date_str = ''2020-12'' \<and> fmt = ''%Y-%m''
        then Inr \<lparr>year = 2020, month = 12, day = 1, hour = 0, minute = 0, second = 0, microsecond = 0\<rparr>
      else Inl (ValueError ''time data does not match format''))"

section \<open>Collating samples\<close>

subsection \<open>The tensor library\<close>

text \<open>
  A tensor of the array library is a nested list of numbers: a zero-dimensional
  tensor holds one number, a tensor of higher rank is the list of its slices along
  the leading axis. Real tensors are rectangular (\<open>rectangular\<close> below). An empty
  leading axis is representable, the axes behind it are then not recorded.
\<close>

datatype tensor = Scalar int | Arr "tensor list"

fun shape :: "tensor \<Rightarrow> nat list" where
  "shape (Scalar x) = []"
| "shape (Arr ts) = length ts # (case ts of [] \<Rightarrow> [] | t # _ \<Rightarrow> shape t)"

fun rectangular :: "tensor \<Rightarrow> bool" where
  "rectangular (Scalar x) = True"
| "rectangular (Arr ts) = (\<forall>t \<in> set ts. rectangular t \<and> shape t = shape (hd ts))"

definition rank :: "tensor \<Rightarrow> nat" where
  "rank t = length (shape t)"

text \<open>
  The exceptions: \<open>TypeError\<close>; the \<open>RuntimeError\<close> of the library for shapes that
  do not fit; its error for a tensor without dimensions (\<open>Dimension specified as 0 but
  tensor has no dimensions\<close>); the \<open>ValueError\<close> of \<open>max\<close> on an empty sequence; the
  \<open>IndexError\<close> of \<open>value[0]\<close> on an empty list.
\<close>

datatype collate_error =
  TypeError
| RuntimeError
| DimensionError
| ValueError_max_empty
| IndexError_empty_list

text \<open>
  \<open>torch.stack\<close> along a new leading axis: at least one tensor, all of one shape.
\<close>

definition torch_stack :: "tensor list \<Rightarrow> collate_error + tensor" where
  "torch_stack ts =
     (if ts = [] then Inl RuntimeError
      else if \<forall>t \<in> set ts. shape t = shape (hd ts) then Inr (Arr ts)
      else Inl RuntimeError)"

text \<open>\<open>torch.unbind\<close> along the leading axis; a zero-dimensional tensor has none.\<close>

fun torch_unbind :: "tensor \<Rightarrow> collate_error + tensor list" where
  "torch_unbind (Scalar x) = Inl DimensionError"
| "torch_unbind (Arr ts) = Inr ts"

text \<open>
  \<open>torch.cat\<close> along the leading axis: at least one tensor, none zero-dimensional,
  all of one shape behind the leading axis.
\<close>

fun slices :: "tensor \<Rightarrow> tensor list" where
  "slices (Scalar x) = []"
| "slices (Arr ts) = ts"

definition torch_cat :: "tensor list \<Rightarrow> collate_error + tensor" where
  "torch_cat ts =
     (if ts = [] then Inl RuntimeError
      else if \<exists>t \<in> set ts. shape t = [] then Inl RuntimeError
      else if \<forall>t \<in> set ts. tl (shape t) = tl (shape (hd ts)) then Inr (Arr (concat (map slices ts)))
      else Inl RuntimeError)"

text \<open>
  Broadcasting of two shapes, read from the last axis: two sizes agree when they are
  equal or one of them is 1; a missing axis counts as 1.
\<close>

fun broadcast_rev :: "nat list \<Rightarrow> nat list \<Rightarrow> nat list option" where
  "broadcast_rev [] ys = Some ys"
| "broadcast_rev (x # xs) [] = Some (x # xs)"
| "broadcast_rev (x # xs) (y # ys) =
     (if x = y \<or> y = 1 then map_option ((#) x) (broadcast_rev xs ys)
      else if x = 1 then map_option ((#) y) (broadcast_rev xs ys)
      else None)"

text \<open>
  The elementwise maximum of two tensors whose shapes broadcast: the tensor of lower
  rank is repeated along the leading axis of the other, and an axis of size 1 is
  repeated along the matching axis. (The last case is for shapes that do not
  broadcast, which \<open>torch_maximum\<close> rejects before.)
\<close>

function (sequential) broadcast_max :: "tensor \<Rightarrow> tensor \<Rightarrow> tensor" where
  "broadcast_max (Scalar a) (Scalar b) = Scalar (max a b)"
| "broadcast_max (Scalar a) (Arr ys) = Arr (map (broadcast_max (Scalar a)) ys)"
| "broadcast_max (Arr xs) (Scalar b) = Arr (map (\<lambda>x. broadcast_max x (Scalar b)) xs)"
| "broadcast_max (Arr xs) (Arr ys) =
     (if rank (Arr xs) < rank (Arr ys) then Arr (map (broadcast_max (Arr xs)) ys)
      else if rank (Arr ys) < rank (Arr xs) then Arr (map (\<lambda>x. broadcast_max x (Arr ys)) xs)
      else if length xs = length ys then Arr (map (\<lambda>(x, y). broadcast_max x y) (zip xs ys))
      else (case xs of
              [x] \<Rightarrow> Arr (map (broadcast_max x) ys)
            | _ \<Rightarrow> (case ys of
                      [y] \<Rightarrow> Arr (map (\<lambda>x. broadcast_max x y) xs)
                    | _ \<Rightarrow> Arr [])))"
  by pat_completeness auto

lemma size_slice: "x \<in> set xs \<Longrightarrow> size x < Suc (size_list size xs)"
  by (induction xs) auto

termination broadcast_max
proof (relation "measure (\<lambda>(a, b). size a + size b)", goal_cases)
  case 1
  show ?case by simp
next
  case (6 xs ys z x y)
  then have "x \<in> set xs" "y \<in> set ys"
    by (auto dest: set_zip_leftD set_zip_rightD)
  then show ?case
    using size_slice [of x xs] size_slice [of y ys] by simp
qed (auto dest: size_slice)

text \<open>\<open>torch.maximum\<close>: shapes that do not broadcast raise \<open>RuntimeError\<close>.\<close>

definition torch_maximum :: "tensor \<Rightarrow> tensor \<Rightarrow> collate_error + tensor" where
  "torch_maximum a b =
     (case broadcast_rev (rev (shape a)) (rev (shape b)) of
        None \<Rightarrow> Inl RuntimeError
      | Some s \<Rightarrow> Inr (broadcast_max a b))"

subsection \<open>Samples\<close>

text \<open>
  The values of a sample: a tensor, a Python list or tuple of values, a string, or
  any other object (a CRS, a number, ...), which has no length. A sample is a dict
  with string keys, kept as an association list in insertion order; \<open>d[k] = v\<close> is
  \<open>AList.update k v d\<close>.
\<close>

datatype pyval =
  Tensor tensor
| PList "pyval list"
| PTuple "pyval list"
| PStr string
| Obj string

type_synonym sample = "(string \<times> pyval) list"

fun is_Tensor :: "pyval \<Rightarrow> bool" where
  "is_Tensor (Tensor t) = True"
| "is_Tensor v = False"

text \<open>The tensors of a list of values, when all of them are tensors.\<close>

fun tensors_of :: "pyval list \<Rightarrow> tensor list option" where
  "tensors_of [] = Some []"
| "tensors_of (Tensor t # vs) = map_option ((#) t) (tensors_of vs)"
| "tensors_of (v # vs) = None"

text \<open>\<open>len(v)\<close> and the elements that iterating over \<open>v\<close> yields.\<close>

fun py_len :: "pyval \<Rightarrow> collate_error + nat" where
  "py_len (Tensor (Scalar x)) = Inl TypeError"
| "py_len (Tensor (Arr ts)) = Inr (length ts)"
| "py_len (PList vs) = Inr (length vs)"
| "py_len (PTuple vs) = Inr (length vs)"
| "py_len (PStr s) = Inr (length s)"
| "py_len (Obj x) = Inl TypeError"

fun py_iter :: "pyval \<Rightarrow> pyval list" where
  "py_iter (Tensor t) = map Tensor (slices t)"
| "py_iter (PList vs) = vs"
| "py_iter (PTuple vs) = vs"
| "py_iter (PStr s) = map (\<lambda>c. PStr [c]) s"
| "py_iter (Obj x) = []"

subsection \<open>List of dicts to dict of lists, and back\<close>

text \<open>\<open>collated[key].append(value)\<close> on a \<open>defaultdict(list)\<close>.\<close>

fun append_item :: "string \<Rightarrow> pyval \<Rightarrow> (string \<times> pyval list) list \<Rightarrow> (string \<times> pyval list) list" where
  "append_item k v [] = [(k, [v])]"
| "append_item k v ((k', vs) # c) =
     (if k' = k then (k', vs @ [v]) # c else (k', vs) # append_item k v c)"

definition list_dict_to_dict_list :: "sample list \<Rightarrow> (string \<times> pyval list) list" where
  "list_dict_to_dict_list samples =
     foldl (\<lambda>collated sample. foldl (\<lambda>c (key, v). append_item key v c) collated sample) [] samples"

text \<open>
  \<open>for i, value in enumerate(values): uncollated[i][key] = value\<close>. The list
  \<open>uncollated\<close> is as long as the longest value, so \<open>i\<close> is always in range.
\<close>

fun assign_column :: "string \<Rightarrow> pyval list \<Rightarrow> sample list \<Rightarrow> sample list" where
  "assign_column k [] ds = ds"
| "assign_column k (v # vs) [] = []"
| "assign_column k (v # vs) (d # ds) = AList.update k v d # assign_column k vs ds"

text \<open>The lengths of all values, or the first \<open>TypeError\<close>.\<close>

fun lengths :: "pyval list \<Rightarrow> collate_error + nat list" where
  "lengths [] = Inr []"
| "lengths (v # vs) =
     (case py_len v of
        Inl e \<Rightarrow> Inl e
      | Inr n \<Rightarrow> (case lengths vs of Inl e \<Rightarrow> Inl e | Inr ns \<Rightarrow> Inr (n # ns)))"

text \<open>\<open>max\<close> of an empty sequence raises \<open>ValueError\<close>.\<close>

definition dict_list_to_list_dict :: "sample \<Rightarrow> collate_error + sample list" where
  "dict_list_to_list_dict sample =
     (case lengths (map snd sample) of
        Inl e \<Rightarrow> Inl e
      | Inr ns \<Rightarrow>
          if ns = [] then Inl ValueError_max_empty
          else Inr (foldl (\<lambda>uncollated (key, vs). assign_column key (py_iter vs) uncollated)
                          (replicate (fold max ns 0) []) sample))"

subsection \<open>The four collation functions\<close>

text \<open>
  A loop \<open>for key, value in collated.items(): collated[key] = f(value)\<close> that rewrites
  every value in place and stops at the first exception.
\<close>

fun map_values :: "('a \<Rightarrow> collate_error + 'b) \<Rightarrow> (string \<times> 'a) list \<Rightarrow> collate_error + (string \<times> 'b) list" where
  "map_values f [] = Inr []"
| "map_values f ((k, v) # kvs) =
     (case f v of
        Inl e \<Rightarrow> Inl e
      | Inr v' \<Rightarrow> (case map_values f kvs of Inl e \<Rightarrow> Inl e | Inr r \<Rightarrow> Inr ((k, v') # r)))"

text \<open>
  \<open>stack_samples\<close>: a key whose first value is a tensor gets the stack of its
  values (\<open>torch.stack\<close> refuses a list with a non-tensor), any other key keeps the
  list of its values.
\<close>

definition stack_value :: "pyval list \<Rightarrow> collate_error + pyval" where
  "stack_value vs =
     (case vs of
        [] \<Rightarrow> Inl IndexError_empty_list
      | v # _ \<Rightarrow>
          if is_Tensor v then
            (case tensors_of vs of
               None \<Rightarrow> Inl TypeError
             | Some ts \<Rightarrow> (case torch_stack ts of Inl e \<Rightarrow> Inl e | Inr t \<Rightarrow> Inr (Tensor t)))
          else Inr (PList vs))"

definition stack_samples :: "sample list \<Rightarrow> collate_error + sample" where
  "stack_samples samples = map_values stack_value (list_dict_to_dict_list samples)"

text \<open>\<open>concat_samples\<close>: \<open>torch.cat\<close> for tensors, the first value otherwise.\<close>

definition concat_value :: "pyval list \<Rightarrow> collate_error + pyval" where
  "concat_value vs =
     (case vs of
        [] \<Rightarrow> Inl IndexError_empty_list
      | v # _ \<Rightarrow>
          if is_Tensor v then
            (case tensors_of vs of
               None \<Rightarrow> Inl TypeError
             | Some ts \<Rightarrow> (case torch_cat ts of Inl e \<Rightarrow> Inl e | Inr t \<Rightarrow> Inr (Tensor t)))
          else Inr v)"

definition concat_samples :: "sample list \<Rightarrow> collate_error + sample" where
  "concat_samples samples = map_values concat_value (list_dict_to_dict_list samples)"

text \<open>
  \<open>merge_samples\<close>: one step of the inner loop. \<open>torch.maximum\<close> raises \<open>TypeError\<close>
  when the value already stored is not a tensor.
\<close>

definition merge_item :: "sample \<Rightarrow> string \<times> pyval \<Rightarrow> collate_error + sample" where
  "merge_item collated kv =
     (case kv of (key, v) \<Rightarrow>
        (case (map_of collated key, v) of
           (Some old, Tensor b) \<Rightarrow>
             (case old of
                Tensor a \<Rightarrow>
                  (case torch_maximum a b of
                     Inl e \<Rightarrow> Inl e
                   | Inr t \<Rightarrow> Inr (AList.update key (Tensor t) collated))
              | _ \<Rightarrow> Inl TypeError)
         | _ \<Rightarrow> Inr (AList.update key v collated)))"

text \<open>A loop over a list that threads a state and stops at the first exception.\<close>

fun fold_err :: "('s \<Rightarrow> 'a \<Rightarrow> collate_error + 's) \<Rightarrow> 's \<Rightarrow> 'a list \<Rightarrow> collate_error + 's" where
  "fold_err f s [] = Inr s"
| "fold_err f s (x # xs) = (case f s x of Inl e \<Rightarrow> Inl e | Inr s' \<Rightarrow> fold_err f s' xs)"

definition merge_samples :: "sample list \<Rightarrow> collate_error + sample" where
  "merge_samples samples = fold_err (\<lambda>collated sample. fold_err merge_item collated sample) [] samples"

text \<open>
  \<open>unbind_samples\<close> writes into the sample it is given: the loop visits the items
  and replaces each tensor by the tuple of its slices, \<open>sample[key] = torch.unbind(values)\<close>.
  The result is the sample as the loop left it, with the exception that stopped it
  or the list of dicts.
\<close>

fun unbind_loop :: "(string \<times> pyval) list \<Rightarrow> sample \<Rightarrow> sample \<times> collate_error option" where
  "unbind_loop [] sample = (sample, None)"
| "unbind_loop ((key, Tensor t) # items) sample =
     (case torch_unbind t of
        Inl e \<Rightarrow> (sample, Some e)
      | Inr ts \<Rightarrow> unbind_loop items (AList.update key (PTuple (map Tensor ts)) sample))"
| "unbind_loop ((key, v) # items) sample = unbind_loop items sample"

definition unbind_samples :: "sample \<Rightarrow> sample \<times> (collate_error + sample list)" where
  "unbind_samples sample =
     (case unbind_loop sample sample of
        (sample', Some e) \<Rightarrow> (sample', Inl e)
      | (sample', None) \<Rightarrow> (sample', dict_list_to_list_dict sample'))"

subsection \<open>The same functions on objects in a store\<close>

text \<open>
  The caller's dicts are objects. A store is the list of the dicts that exist, the
  address of a dict being its index; a new dict gets the next address. Here the
  functions are written as the source executes them, statement by statement: every
  assignment \<open>d[key] = v\<close> and every \<open>append\<close> is a write to the store at the address
  of the dict it changes, and every read of a caller's dict is a read of the store
  as it is at that moment. The values kept in a dict (tensors, strings, ...) are
  never modified by the code; they are values here.
\<close>

type_synonym store = "sample list"

text \<open>\<open>d[key] = v\<close>, where \<open>d\<close> is the dict at address \<open>a\<close>.\<close>

definition setitem :: "store \<Rightarrow> nat \<Rightarrow> string \<Rightarrow> pyval \<Rightarrow> store" where
  "setitem st a key v = st[a := AList.update key v (st ! a)]"

text \<open>
  \<open>collated[key].append(value)\<close>, where \<open>collated\<close> is the \<open>defaultdict(list)\<close> at
  address \<open>c\<close>: a missing key gets the list of the one value.
\<close>

fun append_value :: "string \<Rightarrow> pyval \<Rightarrow> sample \<Rightarrow> sample" where
  "append_value k v [] = [(k, PList [v])]"
| "append_value k v ((k', w) # d) =
     (if k' = k then (k', PList (py_iter w @ [v])) # d else (k', w) # append_value k v d)"

definition append_at :: "store \<Rightarrow> nat \<Rightarrow> string \<Rightarrow> pyval \<Rightarrow> store" where
  "append_at st c key v = st[c := append_value key v (st ! c)]"

text \<open>
  A \<open>for\<close> loop whose body writes to the store and may raise: the loop stops at the
  first exception, and the store stays as the body left it.
\<close>

fun for_each ::
  "(store \<Rightarrow> 'x \<Rightarrow> store \<times> collate_error option) \<Rightarrow> store \<Rightarrow> 'x list \<Rightarrow> store \<times> collate_error option" where
  "for_each body st [] = (st, None)"
| "for_each body st (x # xs) =
     (case body st x of
        (st', Some e) \<Rightarrow> (st', Some e)
      | (st', None) \<Rightarrow> for_each body st' xs)"

text \<open>
  \<open>_list_dict_to_dict_list\<close>: the new dict \<open>collated\<close> is allocated at the next
  address, which is returned; \<open>samples\<close> are the addresses of the caller's dicts.
\<close>

definition list_dict_to_dict_list_at :: "store \<Rightarrow> nat list \<Rightarrow> store \<times> nat" where
  "list_dict_to_dict_list_at st samples =
     (let c = length st in
        (foldl (\<lambda>st a. foldl (\<lambda>st (key, v). append_at st c key v) st (st ! a)) (st @ [[]]) samples,
         c))"

text \<open>
  The body of the loop of \<open>stack_samples\<close> over the items of \<open>collated\<close>, the dict at
  address \<open>c\<close>: \<open>if isinstance(value[0], Tensor): collated[key] = torch.stack(value)\<close>.
\<close>

definition stack_step :: "nat \<Rightarrow> store \<Rightarrow> string \<times> pyval \<Rightarrow> store \<times> collate_error option" where
  "stack_step c st kv =
     (case kv of (key, value) \<Rightarrow>
        (case py_iter value of
           [] \<Rightarrow> (st, Some IndexError_empty_list)
         | v # _ \<Rightarrow>
             if is_Tensor v then
               (case tensors_of (py_iter value) of
                  None \<Rightarrow> (st, Some TypeError)
                | Some ts \<Rightarrow>
                    (case torch_stack ts of
                       Inl e \<Rightarrow> (st, Some e)
                     | Inr t \<Rightarrow> (setitem st c key (Tensor t), None)))
             else (st, None)))"

definition stack_samples_at :: "store \<Rightarrow> nat list \<Rightarrow> store \<times> (collate_error + nat)" where
  "stack_samples_at st samples =
     (case list_dict_to_dict_list_at st samples of
        (st1, c) \<Rightarrow>
          (case for_each (stack_step c) st1 (st1 ! c) of
             (st2, Some e) \<Rightarrow> (st2, Inl e)
           | (st2, None) \<Rightarrow> (st2, Inr c)))"

text \<open>
  The body of the loop of \<open>concat_samples\<close>:
  \<open>if isinstance(value[0], Tensor): collated[key] = torch.cat(value)\<close>,
  \<open>else: collated[key] = value[0]\<close>.
\<close>

definition concat_step :: "nat \<Rightarrow> store \<Rightarrow> string \<times> pyval \<Rightarrow> store \<times> collate_error option" where
  "concat_step c st kv =
     (case kv of (key, value) \<Rightarrow>
        (case py_iter value of
           [] \<Rightarrow> (st, Some IndexError_empty_list)
         | v # _ \<Rightarrow>
             if is_Tensor v then
               (case tensors_of (py_iter value) of
                  None \<Rightarrow> (st, Some TypeError)
                | Some ts \<Rightarrow>
                    (case torch_cat ts of
                       Inl e \<Rightarrow> (st, Some e)
                     | Inr t \<Rightarrow> (setitem st c key (Tensor t), None)))
             else (setitem st c key v, None)))"

definition concat_samples_at :: "store \<Rightarrow> nat list \<Rightarrow> store \<times> (collate_error + nat)" where
  "concat_samples_at st samples =
     (case list_dict_to_dict_list_at st samples of
        (st1, c) \<Rightarrow>
          (case for_each (concat_step c) st1 (st1 ! c) of
             (st2, Some e) \<Rightarrow> (st2, Inl e)
           | (st2, None) \<Rightarrow> (st2, Inr c)))"

text \<open>
  The body of the inner loop of \<open>merge_samples\<close>, \<open>collated\<close> being the dict at
  address \<open>c\<close>: \<open>if key in collated and isinstance(value, Tensor):\<close>
  \<open>collated[key] = torch.maximum(collated[key], value)\<close>, \<open>else: collated[key] = value\<close>.
\<close>

definition merge_step :: "nat \<Rightarrow> store \<Rightarrow> string \<times> pyval \<Rightarrow> store \<times> collate_error option" where
  "merge_step c st kv =
     (case kv of (key, value) \<Rightarrow>
        (case (map_of (st ! c) key, value) of
           (Some old, Tensor b) \<Rightarrow>
             (case old of
                Tensor a \<Rightarrow>
                  (case torch_maximum a b of
                     Inl e \<Rightarrow> (st, Some e)
                   | Inr t \<Rightarrow> (setitem st c key (Tensor t), None))
              | _ \<Rightarrow> (st, Some TypeError))
         | _ \<Rightarrow> (setitem st c key value, None)))"

definition merge_samples_at :: "store \<Rightarrow> nat list \<Rightarrow> store \<times> (collate_error + nat)" where
  "merge_samples_at st samples =
     (let c = length st in
        (case for_each (\<lambda>st a. for_each (merge_step c) st (st ! a)) (st @ [[]]) samples of
           (st1, Some e) \<Rightarrow> (st1, Inl e)
         | (st1, None) \<Rightarrow> (st1, Inr c)))"

text \<open>
  \<open>_dict_list_to_list_dict\<close> on the dict at address \<open>a\<close>: the new dicts of
  \<open>uncollated\<close> are allocated at the next addresses, \<open>uncollated[i]\<close> at \<open>u + i\<close>, and
  the list of these addresses is returned.
\<close>

definition dict_list_to_list_dict_at :: "store \<Rightarrow> nat \<Rightarrow> store \<times> (collate_error + nat list)" where
  "dict_list_to_list_dict_at st a =
     (case lengths (map snd (st ! a)) of
        Inl e \<Rightarrow> (st, Inl e)
      | Inr ns \<Rightarrow>
          if ns = [] then (st, Inl ValueError_max_empty)
          else
            (let u = length st; n = fold max ns 0 in
               (foldl (\<lambda>st (key, values).
                         foldl (\<lambda>st (i, v). setitem st (u + i) key v) st (enumerate 0 (py_iter values)))
                      (st @ replicate n []) (st ! a),
                Inr [u ..< u + n])))"

text \<open>
  The body of the loop of \<open>unbind_samples\<close> over the items of \<open>sample\<close>, the caller's
  dict at address \<open>a\<close>: \<open>if isinstance(values, Tensor): sample[key] = torch.unbind(values)\<close>.
\<close>

definition unbind_step :: "nat \<Rightarrow> store \<Rightarrow> string \<times> pyval \<Rightarrow> store \<times> collate_error option" where
  "unbind_step a st kv =
     (case kv of (key, values) \<Rightarrow>
        (case values of
           Tensor t \<Rightarrow>
             (case torch_unbind t of
                Inl e \<Rightarrow> (st, Some e)
              | Inr ts \<Rightarrow> (setitem st a key (PTuple (map Tensor ts)), None))
         | _ \<Rightarrow> (st, None)))"

definition unbind_samples_at :: "store \<Rightarrow> nat \<Rightarrow> store \<times> (collate_error + nat list)" where
  "unbind_samples_at st a =
     (case for_each (unbind_step a) st (st ! a) of
        (st1, Some e) \<Rightarrow> (st1, Inl e)
      | (st1, None) \<Rightarrow> dict_list_to_list_dict_at st1 a)"

subsection \<open>Notions used to state the properties\<close>

text \<open>What \<open>unbind_samples\<close> leaves in place of a value: the tuple of the slices of a tensor.\<close>

fun unbound :: "pyval \<Rightarrow> pyval" where
  "unbound (Tensor (Arr ts)) = PTuple (map Tensor ts)"
| "unbound v = v"

text \<open>
  What the loop of \<open>unbind_samples\<close> leaves of a sample: \<open>torch.unbind\<close> raises on a
  zero-dimensional tensor, so the values before the first one are replaced and the
  values from it on are as they were.
\<close>

fun unbound_upto :: "sample \<Rightarrow> sample" where
  "unbound_upto [] = []"
| "unbound_upto ((k, Tensor (Scalar x)) # items) = (k, Tensor (Scalar x)) # items"
| "unbound_upto ((k, v) # items) = (k, unbound v) # unbound_upto items"

text \<open>
  A store \<open>st'\<close> that came from \<open>st\<close> by writes outside the first \<open>n\<close> addresses, those
  in \<open>W\<close> apart.
\<close>

definition frame :: "nat \<Rightarrow> nat set \<Rightarrow> store \<Rightarrow> store \<Rightarrow> bool" where
  "frame n W st st' \<longleftrightarrow> n \<le> length st' \<and> (\<forall>b < n. b \<notin> W \<longrightarrow> st' ! b = st ! b)"

text \<open>
  Two stores: one with two samples, and one with a sample that has a zero-dimensional
  tensor between two others.
\<close>

definition example_store :: store where
  "example_store =
     [[(''image'', Tensor (Arr [Scalar 1, Scalar 2])), (''crs'', PStr ''EPSG:4326'')],
      [(''image'', Tensor (Arr [Scalar 3, Scalar 4])), (''crs'', PStr ''EPSG:4326'')]]"

definition example_store0 :: store where
  "example_store0 =
     [[(''image'', Tensor (Arr [Scalar 1, Scalar 2])), (''n'', Tensor (Scalar 7)),
       (''mask'', Tensor (Arr [Scalar 3, Scalar 4]))]]"

text \<open>The values stored under a key, in the order of the batch (samples without the key are skipped).\<close>

definition column :: "string \<Rightarrow> sample list \<Rightarrow> pyval list" where
  "column k batch = List.map_filter (\<lambda>sample. map_of sample k) batch"

text \<open>The maximum of two tensors of one shape, entry by entry.\<close>

function (sequential) elementwise_max :: "tensor \<Rightarrow> tensor \<Rightarrow> tensor" where
  "elementwise_max (Scalar a) (Scalar b) = Scalar (max a b)"
| "elementwise_max (Arr xs) (Arr ys) = Arr (map (\<lambda>(x, y). elementwise_max x y) (zip xs ys))"
| "elementwise_max a b = a"
  by pat_completeness auto

termination elementwise_max
proof (relation "measure (\<lambda>(a, b). size a)", goal_cases)
  case 1
  show ?case by simp
next
  case (2 xs ys z x y)
  then have "x \<in> set xs"
    by (auto dest: set_zip_leftD)
  then show ?case
    using size_slice [of x xs] by simp
qed

text \<open>
  The loop of \<open>merge_samples\<close> seen from one key: what a step stores, given what is
  stored (\<open>None\<close> when the key is not yet in \<open>collated\<close>), and the effect of the
  steps for a list of values.
\<close>

fun merge_value :: "pyval option \<Rightarrow> pyval \<Rightarrow> collate_error + pyval" where
  "merge_value None v = Inr v"
| "merge_value (Some (Tensor a)) (Tensor b) =
     (case torch_maximum a b of Inl e \<Rightarrow> Inl e | Inr t \<Rightarrow> Inr (Tensor t))"
| "merge_value (Some old) (Tensor b) = Inl TypeError"
| "merge_value (Some old) v = Inr v"

fun merge_cell :: "pyval option \<Rightarrow> pyval list \<Rightarrow> collate_error + pyval option" where
  "merge_cell c [] = Inr c"
| "merge_cell c (v # vs) =
     (case merge_value c v of Inl e \<Rightarrow> Inl e | Inr v' \<Rightarrow> merge_cell (Some v') vs)"

text \<open>The values of a key in one sample: none or one.\<close>

definition cell :: "sample \<Rightarrow> string \<Rightarrow> pyval list" where
  "cell s k = (case map_of s k of None \<Rightarrow> [] | Some v \<Rightarrow> [v])"

text \<open>An example batch: a mask and a piece of metadata in each of two samples.\<close>

definition example_batch :: "sample list" where
  "example_batch =
     [[(''m'', Tensor (Arr [Scalar 0, Scalar 5, Scalar 0])), (''crs'', Obj ''a'')],
      [(''m'', Tensor (Arr [Scalar 3, Scalar 0, Scalar 0])), (''crs'', Obj ''b'')]]"

text \<open>
  Python's \<open>==\<close> on two dicts: the same keys with equal values, whatever the order
  of insertion.
\<close>

definition dict_eq :: "sample \<Rightarrow> sample \<Rightarrow> bool" where
  "dict_eq d d' \<longleftrightarrow> distinct (map fst d) \<and> distinct (map fst d') \<and> set d = set d'"

text \<open>What \<open>stack_samples\<close> stores for a list of values when it raises nothing.\<close>

definition stacked :: "pyval list \<Rightarrow> pyval" where
  "stacked vs = (case tensors_of vs of Some ts \<Rightarrow> Tensor (Arr ts) | None \<Rightarrow> PList vs)"

text \<open>Two samples, each with an array of shape \<open>(3, 3)\<close> and a piece of metadata.\<close>

definition example_array1 :: tensor where
  "example_array1 =
     Arr [Arr [Scalar 1, Scalar 2, Scalar 3], Arr [Scalar 4, Scalar 5, Scalar 6],
          Arr [Scalar 7, Scalar 8, Scalar 9]]"

definition example_array2 :: tensor where
  "example_array2 =
     Arr [Arr [Scalar 0, Scalar 0, Scalar 0], Arr [Scalar 1, Scalar 1, Scalar 1],
          Arr [Scalar 2, Scalar 2, Scalar 2]]"

definition example_pair :: "sample list" where
  "example_pair =
     [[(''a'', Tensor example_array1), (''crs'', Obj ''c'')],
      [(''a'', Tensor example_array2), (''crs'', Obj ''d'')]]"

section \<open>Properties of BoundingBox\<close>

text \<open>On a linear order Python's \<open>min\<close> and \<open>max\<close> are the minimum and the maximum.\<close>

lemma py_min_linorder [simp]: "py_min a b = min a (b::'a::linorder)"
  by (auto simp: py_min_def min_def)

lemma py_max_linorder [simp]: "py_max a b = max a (b::'a::linorder)"
  by (auto simp: py_max_def max_def)

lemma post_init_valid: "post_init b = Inr b' \<longleftrightarrow> valid_box (b::('a::linorder) BoundingBox) \<and> b' = b"
  by (auto simp: post_init_def valid_box_def)

lemma BoundingBox_new_valid:
  "valid_box \<lparr>minx = x0::'a::linorder, maxx = x1, miny = y0, maxy = y1, mint = t0, maxt = t1\<rparr> \<Longrightarrow>
   BoundingBox_new x0 x1 y0 y1 t0 t1 =
     Inr \<lparr>minx = x0, maxx = x1, miny = y0, maxy = y1, mint = t0, maxt = t1\<rparr>"
  by (simp add: BoundingBox_new_def post_init_valid)

lemma BoundingBox_new_invalid:
  "\<not> valid_box \<lparr>minx = x0::'a::linorder, maxx = x1, miny = y0, maxy = y1, mint = t0, maxt = t1\<rparr> \<Longrightarrow>
   \<exists>e. BoundingBox_new x0 x1 y0 y1 t0 t1 = Inl e"
  by (auto simp: BoundingBox_new_def post_init_def valid_box_def)

lemma post_init_cases:
  "valid_box (b::('a::linorder) BoundingBox) \<and> post_init b = Inr b \<or> \<not> valid_box b \<and> (\<exists>e. post_init b = Inl e)"
  by (auto simp: post_init_def valid_box_def)

lemma intersect_Inr_iff:
  "intersect a b = Inr (i::('a::linorder) BoundingBox) \<longleftrightarrow>
     valid_box i \<and> i = \<lparr>minx = max (minx a) (minx b), maxx = min (maxx a) (maxx b),
             miny = max (miny a) (miny b), maxy = min (maxy a) (maxy b),
             mint = max (mint a) (mint b), maxt = min (maxt a) (maxt b)\<rparr>"
  using post_init_cases [of "\<lparr>minx = max (minx a) (minx b), maxx = min (maxx a) (maxx b),
             miny = max (miny a) (miny b), maxy = min (maxy a) (maxy b),
             mint = max (mint a) (mint b), maxt = min (maxt a) (maxt b)\<rparr>"]
  by (auto simp: intersect_def BoundingBox_new_def)

lemma intersect_Inl_iff:
  "intersect a b = Inl e \<longleftrightarrow>
     e = ValueError_no_overlap a (b::('a::linorder) BoundingBox) \<and>
     \<not> valid_box \<lparr>minx = max (minx a) (minx b), maxx = min (maxx a) (maxx b),
             miny = max (miny a) (miny b), maxy = min (maxy a) (maxy b),
             mint = max (mint a) (mint b), maxt = min (maxt a) (maxt b)\<rparr>"
  using post_init_cases [of "\<lparr>minx = max (minx a) (minx b), maxx = min (maxx a) (maxx b),
             miny = max (miny a) (miny b), maxy = min (maxy a) (maxy b),
             mint = max (mint a) (mint b), maxt = min (maxt a) (maxt b)\<rparr>"]
  by (auto simp: intersect_def BoundingBox_new_def)

lemma valid_overlap_iff:
  "valid_box a \<Longrightarrow> valid_box (b::('a::linorder) BoundingBox) \<Longrightarrow>
   valid_box \<lparr>minx = max (minx a) (minx b), maxx = min (maxx a) (maxx b),
             miny = max (miny a) (miny b), maxy = min (maxy a) (maxy b),
             mint = max (mint a) (mint b), maxt = min (maxt a) (maxt b)\<rparr>
   \<longleftrightarrow> intersects a b"
  by (auto simp: valid_box_def intersects_def)

text \<open>
  Claim C1. For valid boxes \<open>a\<close> and \<open>b\<close> the union is built without error and
  contains both operands; and whenever the intersection is built, it lies inside
  both operands.
\<close>

theorem union_contains_intersect_contained:
  fixes a b :: "('a::linorder) BoundingBox"
  assumes "valid_box a" and "valid_box b"
  shows "(\<exists>u. union a b = Inr u \<and> contains u a \<and> contains u b)
       \<and> (\<forall>i. intersect a b = Inr i \<longrightarrow> contains a i \<and> contains b i)"
proof (intro conjI allI impI)
  let ?u = "\<lparr>minx = min (minx a) (minx b), maxx = max (maxx a) (maxx b),
             miny = min (miny a) (miny b), maxy = max (maxy a) (maxy b),
             mint = min (mint a) (mint b), maxt = max (maxt a) (maxt b)\<rparr>"
  from assms have v: "valid_box ?u"
    by (auto simp: valid_box_def min_le_iff_disj le_max_iff_disj)
  have "union a b = Inr ?u"
    unfolding union_def py_min_linorder py_max_linorder by (rule BoundingBox_new_valid [OF v])
  moreover from assms have "contains ?u a" "contains ?u b"
    by (auto simp: contains_def valid_box_def min_le_iff_disj le_max_iff_disj)
  ultimately show "\<exists>u. union a b = Inr u \<and> contains u a \<and> contains u b"
    by blast
next
  fix i assume "intersect a b = Inr i"
  then have "valid_box i \<and> i = \<lparr>minx = max (minx a) (minx b), maxx = min (maxx a) (maxx b),
             miny = max (miny a) (miny b), maxy = min (maxy a) (maxy b),
             mint = max (mint a) (mint b), maxt = min (maxt a) (maxt b)\<rparr>"
    using intersect_Inr_iff [of a b i] by blast
  then show "contains a i" "contains b i"
    by (auto simp: contains_def valid_box_def)
qed

theorem union_contains_intersect_contained_witness:
  "valid_box \<lparr>minx = 0::real, maxx = 2, miny = 0, maxy = 2, mint = 0, maxt = 2\<rparr>
 \<and> valid_box \<lparr>minx = 1::real, maxx = 3, miny = 1, maxy = 3, mint = 1, maxt = 3\<rparr>
 \<and> union \<lparr>minx = 0::real, maxx = 2, miny = 0, maxy = 2, mint = 0, maxt = 2\<rparr>
          \<lparr>minx = 1, maxx = 3, miny = 1, maxy = 3, mint = 1, maxt = 3\<rparr>
      = Inr \<lparr>minx = 0, maxx = 3, miny = 0, maxy = 3, mint = 0, maxt = 3\<rparr>
 \<and> intersect \<lparr>minx = 0::real, maxx = 2, miny = 0, maxy = 2, mint = 0, maxt = 2\<rparr>
          \<lparr>minx = 1, maxx = 3, miny = 1, maxy = 3, mint = 1, maxt = 3\<rparr>
      = Inr \<lparr>minx = 1, maxx = 2, miny = 1, maxy = 2, mint = 1, maxt = 2\<rparr>
 \<and> contains \<lparr>minx = 0::real, maxx = 2, miny = 0, maxy = 2, mint = 0, maxt = 2\<rparr>
      \<lparr>minx = 1, maxx = 2, miny = 1, maxy = 2, mint = 1, maxt = 2\<rparr>
 \<and> contains \<lparr>minx = 1::real, maxx = 3, miny = 1, maxy = 3, mint = 1, maxt = 3\<rparr>
      \<lparr>minx = 1, maxx = 2, miny = 1, maxy = 2, mint = 1, maxt = 2\<rparr>"
  using union_contains_intersect_contained
    [of "\<lparr>minx = 0::real, maxx = 2, miny = 0, maxy = 2, mint = 0, maxt = 2\<rparr>"
        "\<lparr>minx = 1::real, maxx = 3, miny = 1, maxy = 3, mint = 1, maxt = 3\<rparr>"]
  by (simp add: valid_box_def union_def intersect_def BoundingBox_new_def post_init_def contains_def)





































text \<open>
  Claim C3. For valid boxes, \<open>intersects\<close> is true exactly when \<open>intersect\<close> returns a
  box, and false exactly when \<open>intersect\<close> raises the no-overlap error. The bounds are
  inclusive: a box whose western edge is the eastern edge of the other, with the same
  y and t ranges, intersects it.
\<close>

theorem intersects_iff_intersect_succeeds:
  fixes a b :: "('a::linorder) BoundingBox"
  assumes "valid_box a" and "valid_box b"
  shows "(intersects a b \<longleftrightarrow> (\<exists>i. intersect a b = Inr i))
       \<and> (\<not> intersects a b \<longleftrightarrow> intersect a b = Inl (ValueError_no_overlap a b))
       \<and> (maxx a = minx b \<and> miny a = miny b \<and> maxy a = maxy b \<and> mint a = mint b \<and> maxt a = maxt b
            \<longrightarrow> intersects a b)"
proof (intro conjI)
  show "intersects a b \<longleftrightarrow> (\<exists>i. intersect a b = Inr i)"
    by (simp add: intersect_Inr_iff valid_overlap_iff [OF assms])
  show "\<not> intersects a b \<longleftrightarrow> intersect a b = Inl (ValueError_no_overlap a b)"
    by (simp add: intersect_Inl_iff valid_overlap_iff [OF assms])
  show "maxx a = minx b \<and> miny a = miny b \<and> maxy a = maxy b \<and> mint a = mint b \<and> maxt a = maxt b
            \<longrightarrow> intersects a b"
    using assms by (auto simp: intersects_def valid_box_def)
qed

theorem intersects_iff_intersect_succeeds_witness:
  "valid_box \<lparr>minx = 0::real, maxx = 1, miny = 0, maxy = 1, mint = 0, maxt = 1\<rparr>
 \<and> valid_box \<lparr>minx = 1::real, maxx = 2, miny = 0, maxy = 1, mint = 0, maxt = 1\<rparr>
 \<and> intersects \<lparr>minx = 0::real, maxx = 1, miny = 0, maxy = 1, mint = 0, maxt = 1\<rparr>
               \<lparr>minx = 1, maxx = 2, miny = 0, maxy = 1, mint = 0, maxt = 1\<rparr>
 \<and> intersect \<lparr>minx = 0::real, maxx = 1, miny = 0, maxy = 1, mint = 0, maxt = 1\<rparr>
               \<lparr>minx = 1, maxx = 2, miny = 0, maxy = 1, mint = 0, maxt = 1\<rparr>
      = Inr \<lparr>minx = 1, maxx = 1, miny = 0, maxy = 1, mint = 0, maxt = 1\<rparr>"
  using intersects_iff_intersect_succeeds
    [of "\<lparr>minx = 0::real, maxx = 1, miny = 0, maxy = 1, mint = 0, maxt = 1\<rparr>"
        "\<lparr>minx = 1::real, maxx = 2, miny = 0, maxy = 1, mint = 0, maxt = 1\<rparr>"]
  by (simp add: valid_box_def intersects_def intersect_def BoundingBox_new_def post_init_def)

text \<open>
  Claim C9, as the code has it. An index \<open>0..5\<close> returns the bound at that position
  of \<open>(minx, maxx, miny, maxy, mint, maxt)\<close>; the key goes to Python's list indexing,
  so an index \<open>-6..-1\<close> counts from the end and returns the bound at position
  \<open>i + 6\<close>; \<open>IndexError\<close> is raised for every integer below \<open>-6\<close> or above \<open>5\<close>.
\<close>

theorem getitem_index:
  "getitem b 0 = Inr (minx b) \<and> getitem b 1 = Inr (maxx b)
 \<and> getitem b 2 = Inr (miny b) \<and> getitem b 3 = Inr (maxy b)
 \<and> getitem b 4 = Inr (mint b) \<and> getitem b 5 = Inr (maxt b)
 \<and> (- 6 \<le> i \<and> i < 0 \<longrightarrow> getitem b i = getitem b (i + 6))
 \<and> (j < - 6 \<or> 5 < j \<longrightarrow> getitem b j = Inl IndexError)"
  by (auto simp: getitem_def list_getitem_def Let_def)

theorem getitem_index_witness:
  "(- 6 \<le> (- 1::int) \<and> (- 1::int) < 0) \<and> ((- 7::int) < - 6 \<or> 5 < (- 7::int))
 \<and> getitem \<lparr>minx = 10::real, maxx = 11, miny = 20, maxy = 21, mint = 30, maxt = 31\<rparr> 2 = Inr 20
 \<and> getitem \<lparr>minx = 10::real, maxx = 11, miny = 20, maxy = 21, mint = 30, maxt = 31\<rparr> (- 1)
     = getitem \<lparr>minx = 10::real, maxx = 11, miny = 20, maxy = 21, mint = 30, maxt = 31\<rparr> 5
 \<and> getitem \<lparr>minx = 10::real, maxx = 11, miny = 20, maxy = 21, mint = 30, maxt = 31\<rparr> (- 7)
     = Inl IndexError"
  using getitem_index
    [of "\<lparr>minx = 10::real, maxx = 11, miny = 20, maxy = 21, mint = 30, maxt = 31\<rparr>" "- 1" "- 7"]
  by simp

text \<open>
  The claim as written, that every index outside \<open>0..5\<close> raises \<open>IndexError\<close>, fails
  at the index \<open>-1\<close>, which returns \<open>maxt\<close>.
\<close>

theorem getitem_negative_index_counterexample:
  "getitem \<lparr>minx = 10::real, maxx = 11, miny = 20, maxy = 21, mint = 30, maxt = 31\<rparr> (- 1) = Inr 31
 \<and> getitem \<lparr>minx = 10::real, maxx = 11, miny = 20, maxy = 21, mint = 30, maxt = 31\<rparr> (- 1)
     \<noteq> Inl IndexError"
  by (simp add: getitem_def list_getitem_def)

section \<open>Properties of Executable\<close>

lemma check_forced: "map_of (AList.update ''check'' (PyBool True) kw) ''check'' = Some (PyBool True)"
  by (simp add: update_conv')

lemma delete_update_check:
  "AList.delete ''check'' (AList.update ''check'' v kw) = AList.delete ''check'' kw"
  by (induction kw) auto

text \<open>
  Claim C10. Whatever value the caller passes for \<open>check\<close>, the call behaves as if
  none had been passed; a child that exits with a nonzero status makes the call raise
  \<open>CalledProcessError\<close>; and a \<open>CompletedProcess\<close> is returned only for a child that
  exited with status 0.
\<close>

theorem Executable_call_checked:
  "(\<forall>v. Executable_call os name args (AList.update ''check'' v kw) = Executable_call os name args kw)
 \<and> (\<forall>rc out err. os (name # args) (AList.delete ''check'' kw) = Inr (rc, out, err) \<and> rc \<noteq> 0 \<longrightarrow>
        Executable_call os name args kw = Inl (CalledProcessError rc (name # args) out err))
 \<and> (\<forall>cp. Executable_call os name args kw = Inr cp \<longrightarrow>
        returncode cp = 0 \<and> os (name # args) (AList.delete ''check'' kw) = Inr (0, stdout cp, stderr cp))"
  by (auto simp: Executable_call_def subprocess_run_def check_forced delete_update_check Let_def
           split: sum.splits prod.splits if_splits)

theorem Executable_call_checked_witness:
  "example_child [''false'', ''-x''] (AList.delete ''check'' [(''check'', PyBool False)])
      = Inr (1, None, None) \<and> (1::int) \<noteq> 0
 \<and> Executable_call example_child ''false'' [''-x''] [(''check'', PyBool False)]
      = Inl (CalledProcessError 1 [''false'', ''-x''] None None)
 \<and> Executable_call example_child ''true'' [] [(''check'', PyBool False)]
      = Inr \<lparr>cp_args = [''true''], returncode = 0, stdout = None, stderr = None\<rparr>"
  using Executable_call_checked [of example_child "''false''" "[''-x'']" "[(''check'', PyBool False)]"]
    Executable_call_checked [of example_child "''true''" "[]" "[(''check'', PyBool False)]"]
  by (simp add: Executable_call_def subprocess_run_def example_child_def)

section \<open>Properties of file discovery\<close>

text \<open>
  Inside \<open>listdir_vfs_recursive\<close> an error of the driver ends the walk and is the
  result, whichever directory it came from.
\<close>

lemma vfs_walk_raises:
  "dirs \<noteq> [] \<Longrightarrow> listdir (last dirs) = Raises_FionaValueError msg \<Longrightarrow>
   \<not> str_contains msg ''is not a directory'' \<Longrightarrow>
   vfs_walk listdir dirs files = Some (Inl (FionaValueError msg))"
  by (subst vfs_walk.simps) simp

lemma vfs_walk_raises_other:
  "dirs \<noteq> [] \<Longrightarrow> listdir (last dirs) = Raises_other e \<Longrightarrow>
   vfs_walk listdir dirs files = Some (Inl (OtherException e))"
  by (subst vfs_walk.simps) simp

text \<open>
  The caller \<open>list_directory_recursive\<close> turns every \<open>FionaValueError\<close> that leaves
  the walk into the empty list, and lets exceptions of other classes through.
\<close>

lemma list_directory_recursive_FionaValueError:
  "path_is_gdal_vsi root_dir \<Longrightarrow>
   listdir_vfs_recursive listdir root_dir = Some (Inl (FionaValueError msg)) \<Longrightarrow>
   list_directory_recursive listdir fnmatch iglob root_dir filename_glob = Some (Inr [])"
  by (simp add: list_directory_recursive_def)

lemma list_directory_recursive_OtherException:
  "path_is_gdal_vsi root_dir \<Longrightarrow>
   listdir_vfs_recursive listdir root_dir = Some (Inl (OtherException e)) \<Longrightarrow>
   list_directory_recursive listdir fnmatch iglob root_dir filename_glob = Some (Inl (OtherException e))"
  by (simp add: list_directory_recursive_def)

text \<open>
  Claim C5 at a concrete archive. The root \<open>/vsizip/a.zip\<close> exists and lists
  \<open>sub\<close> and \<open>x.tif\<close>; the walk records the file \<open>x.tif\<close>, then the driver reports
  that \<open>sub\<close> does not exist. \<open>listdir_vfs_recursive\<close> raises that error, and
  \<open>list_directory_recursive\<close> returns the empty list: the error of a directory
  reached in mid-walk is suppressed, and the file already found is lost with it.
\<close>

theorem list_directory_recursive_midwalk_error:
  "path_is_gdal_vsi ''/vsizip/a.zip''
 \<and> example_listdir ''/vsizip/a.zip'' = Children [''sub'', ''x.tif'']
 \<and> listdir_vfs_recursive example_listdir ''/vsizip/a.zip''
      = Some (Inl (FionaValueError ''Path /vsizip/a.zip/sub does not exist''))
 \<and> list_directory_recursive example_listdir (\<lambda>name pat. True) (\<lambda>pat. []) ''/vsizip/a.zip'' ''*.tif''
      = Some (Inr [])"
  by (simp add: list_directory_recursive_def listdir_vfs_recursive_def vfs_walk.simps
                example_listdir_def path_is_gdal_vsi_def)

section \<open>Properties of timestamp disambiguation\<close>

lemma fmt_Y: "remove_percent_percent ''%Y'' = ''%Y''"
  "any_directive ''%Y'' ''yYcxG''" "\<not> any_directive ''%Y'' ''bBmjUWcxV''"
  by (simp_all add: any_directive_def)

lemma fmt_Ym: "remove_percent_percent ''%Y-%m'' = ''%Y-%m''"
  "any_directive ''%Y-%m'' ''yYcxG''" "any_directive ''%Y-%m'' ''bBmjUWcxV''"
  "\<not> any_directive ''%Y-%m'' ''aAwdjcxV''"
  by (simp_all add: any_directive_def)

lemma new_2021: "datetime_new 2021 1 1 =
   Inr \<lparr>year = 2021, month = 1, day = 1, hour = 0, minute = 0, second = 0, microsecond = 0\<rparr>"
  by (simp add: datetime_new_def days_in_month_def)

lemma ord_2021: "ymd2ord 2021 1 1 = 737791" "ymd2ord 2020 1 1 = 737425" "ymd2ord 2020 12 1 = 737760"
  "ymd2ord 2020 12 31 = 737790" "ymd2ord 1970 1 1 = 719163"
  by code_simp+

lemma ymd_737790: "ord2ymd 737790 = (2020, 12, 31)"
  by code_simp

lemma last_microsecond_2020:
  "datetime_add \<lparr>year = 2021, month = 1, day = 1, hour = 0, minute = 0, second = 0, microsecond = 0\<rparr>
     (- timedelta 0 0 0 0 1) =
   Inr \<lparr>year = 2020, month = 12, day = 31, hour = 23, minute = 59, second = 59, microsecond = 999999\<rparr>"
  by (simp add: datetime_add_def timedelta_def to_microseconds_def of_microseconds_def ord_2021
                ymd_737790 Let_def)

text \<open>
  Claim C4. When the parser gives 2020-01-01T00:00:00 for \<open>("2020", "%Y")\<close> and
  2020-12-01T00:00:00 for \<open>("2020-12", "%Y-%m")\<close>, as the library does, the first
  call returns the timestamps of 2020-01-01T00:00:00 and 2020-12-31T23:59:59.999999
  and the second call has the same upper end, in every local time zone; in UTC these
  are 1577836800 and 1609459199.999999 seconds after the epoch.
\<close>

theorem disambiguate_timestamp_2020:
  assumes "strptime ''2020'' ''%Y'' =
             Inr \<lparr>year = 2020, month = 1, day = 1, hour = 0, minute = 0, second = 0, microsecond = 0\<rparr>"
    and "strptime ''2020-12'' ''%Y-%m'' =
             Inr \<lparr>year = 2020, month = 12, day = 1, hour = 0, minute = 0, second = 0, microsecond = 0\<rparr>"
  shows "disambiguate_timestamp tz strptime ''2020'' ''%Y'' =
           Inr (timestamp tz \<lparr>year = 2020, month = 1, day = 1, hour = 0, minute = 0, second = 0, microsecond = 0\<rparr>,
                timestamp tz \<lparr>year = 2020, month = 12, day = 31, hour = 23, minute = 59, second = 59, microsecond = 999999\<rparr>)
       \<and> disambiguate_timestamp tz strptime ''2020-12'' ''%Y-%m'' =
           Inr (timestamp tz \<lparr>year = 2020, month = 12, day = 1, hour = 0, minute = 0, second = 0, microsecond = 0\<rparr>,
                timestamp tz \<lparr>year = 2020, month = 12, day = 31, hour = 23, minute = 59, second = 59, microsecond = 999999\<rparr>)
       \<and> timestamp utc \<lparr>year = 2020, month = 1, day = 1, hour = 0, minute = 0, second = 0, microsecond = 0\<rparr>
           = 1577836800
       \<and> timestamp utc \<lparr>year = 2020, month = 12, day = 31, hour = 23, minute = 59, second = 59, microsecond = 999999\<rparr>
           = 1609459199.999999"
proof (intro conjI)
  show "disambiguate_timestamp tz strptime ''2020'' ''%Y'' =
           Inr (timestamp tz \<lparr>year = 2020, month = 1, day = 1, hour = 0, minute = 0, second = 0, microsecond = 0\<rparr>,
                timestamp tz \<lparr>year = 2020, month = 12, day = 31, hour = 23, minute = 59, second = 59, microsecond = 999999\<rparr>)"
    unfolding disambiguate_timestamp_def
    by (simp add: assms fmt_Y new_2021 last_microsecond_2020)
  show "disambiguate_timestamp tz strptime ''2020-12'' ''%Y-%m'' =
           Inr (timestamp tz \<lparr>year = 2020, month = 12, day = 1, hour = 0, minute = 0, second = 0, microsecond = 0\<rparr>,
                timestamp tz \<lparr>year = 2020, month = 12, day = 31, hour = 23, minute = 59, second = 59, microsecond = 999999\<rparr>)"
    unfolding disambiguate_timestamp_def
    by (simp add: assms fmt_Ym new_2021 last_microsecond_2020)
  show "timestamp utc \<lparr>year = 2020, month = 1, day = 1, hour = 0, minute = 0, second = 0, microsecond = 0\<rparr>
           = 1577836800"
    by (simp add: timestamp_def utc_def to_microseconds_def ord_2021)
  show "timestamp utc \<lparr>year = 2020, month = 12, day = 31, hour = 23, minute = 59, second = 59, microsecond = 999999\<rparr>
           = 1609459199.999999"
    by (simp add: timestamp_def utc_def to_microseconds_def ord_2021)
qed

theorem disambiguate_timestamp_2020_witness:
  "example_strptime ''2020'' ''%Y'' =
     Inr \<lparr>year = 2020, month = 1, day = 1, hour = 0, minute = 0, second = 0, microsecond = 0\<rparr>
 \<and> example_strptime ''2020-12'' ''%Y-%m'' =
     Inr \<lparr>year = 2020, month = 12, day = 1, hour = 0, minute = 0, second = 0, microsecond = 0\<rparr>
 \<and> disambiguate_timestamp utc example_strptime ''2020'' ''%Y'' = Inr (1577836800, 1609459199.999999)
 \<and> disambiguate_timestamp utc example_strptime ''2020-12'' ''%Y-%m'' = Inr (1606780800, 1609459199.999999)"
proof -
  have a: "example_strptime ''2020'' ''%Y'' =
     Inr \<lparr>year = 2020, month = 1, day = 1, hour = 0, minute = 0, second = 0, microsecond = 0\<rparr>"
    by (simp add: example_strptime_def)
  have b: "example_strptime ''2020-12'' ''%Y-%m'' =
     Inr \<lparr>year = 2020, month = 12, day = 1, hour = 0, minute = 0, second = 0, microsecond = 0\<rparr>"
    by (simp add: example_strptime_def)
  have c: "timestamp utc \<lparr>year = 2020, month = 12, day = 1, hour = 0, minute = 0, second = 0, microsecond = 0\<rparr>
           = 1606780800"
    by (simp add: timestamp_def utc_def to_microseconds_def ord_2021)
  from disambiguate_timestamp_2020 [OF a b, of utc] a b c show ?thesis
    by simp
qed

section \<open>Properties of collation\<close>

subsection \<open>The loops on the store compute what the functions on values compute\<close>

text \<open>
  The functions on values above and the functions on a store are two readings of
  the same source. The lemmas of this subsection relate them: run on the addresses
  of the caller's dicts, the store-level function returns the address of a new dict
  that holds the result of the function on values (or raises the same exception),
  and \<open>unbind_samples\<close> leaves in the caller's dict what the loop on values leaves.
\<close>

lemma update_middle:
  "k \<notin> fst ` set pre \<Longrightarrow> AList.update k v (pre @ (k, v0) # rest) = pre @ (k, v) # rest"
  by (induction pre) auto

lemma unbind_loop_distinct:
  "distinct (map fst (pre @ items)) \<Longrightarrow> \<forall>k x. (k, Tensor (Scalar x)) \<notin> set items \<Longrightarrow>
   unbind_loop items (pre @ items) = (pre @ map (\<lambda>(k, v). (k, unbound v)) items, None)"
proof (induction items arbitrary: pre)
  case Nil
  then show ?case by simp
next
  case (Cons kv items)
  obtain k v where kv: "kv = (k, v)" by (cases kv)
  from Cons.prems(1) have fresh: "k \<notin> fst ` set pre"
    by (auto simp: kv)
  have d: "distinct (map fst ((pre @ [(k, unbound v)]) @ items))"
    using Cons.prems(1) by (simp add: kv)
  have nz: "\<forall>k x. (k, Tensor (Scalar x)) \<notin> set items"
    using Cons.prems(2) by simp
  have upd: "AList.update k (unbound v) (pre @ (k, v) # items) = (pre @ [(k, unbound v)]) @ items"
    using update_middle [OF fresh] by simp
  show ?case
  proof (cases v)
    case (Tensor t)
    with Cons.prems(2) obtain ts where t: "t = Arr ts"
      by (cases t) (auto simp: kv)
    show ?thesis
      using Cons.IH [OF d nz] upd by (simp add: kv Tensor t)
  qed (use Cons.IH [OF d nz] upd in \<open>simp_all add: kv\<close>)
qed

lemma unbind_samples_writes:
  assumes "distinct (map fst sample)" and "\<forall>k x. (k, Tensor (Scalar x)) \<notin> set sample"
  shows "fst (unbind_samples sample) = map (\<lambda>(k, v). (k, unbound v)) sample"
  using unbind_loop_distinct [of "[]" sample] assms by (simp add: unbind_samples_def)

lemma assign_column_length: "length (assign_column k vs ds) = length ds"
  by (induction k vs ds rule: assign_column.induct) simp_all

lemma for_each_unbind_step:
  "a < length st \<Longrightarrow>
   for_each (unbind_step a) st items =
     (st[a := fst (unbind_loop items (st ! a))], snd (unbind_loop items (st ! a)))"
proof (induction items arbitrary: st)
  case Nil
  then show ?case by simp
next
  case (Cons kv items)
  obtain k v where kv: "kv = (k, v)" by (cases kv)
  show ?case
  proof (cases v)
    case (Tensor t)
    show ?thesis
    proof (cases "torch_unbind t")
      case (Inl e)
      then show ?thesis
        by (simp add: kv Tensor unbind_step_def)
    next
      case (Inr ts)
      let ?st = "setitem st a k (PTuple (map Tensor ts))"
      have "a < length ?st"
        using Cons.prems by (simp add: setitem_def)
      from Cons.IH [OF this] show ?thesis
        using Cons.prems by (simp add: kv Tensor Inr unbind_step_def setitem_def)
    qed
  qed (use Cons in \<open>simp_all add: kv unbind_step_def\<close>)
qed

lemma unbind_loop_upto:
  "distinct (map fst (pre @ items)) \<Longrightarrow>
   fst (unbind_loop items (pre @ items)) = pre @ unbound_upto items"
proof (induction items arbitrary: pre)
  case Nil
  then show ?case by simp
next
  case (Cons kv items)
  obtain k v where kv: "kv = (k, v)" by (cases kv)
  from Cons.prems have fresh: "k \<notin> fst ` set pre"
    by (auto simp: kv)
  have d: "distinct (map fst ((pre @ [(k, unbound v)]) @ items))"
    using Cons.prems by (simp add: kv)
  have upd: "AList.update k (unbound v) (pre @ (k, v) # items) = (pre @ [(k, unbound v)]) @ items"
    using update_middle [OF fresh] by simp
  show ?case
  proof (cases v)
    case (Tensor t)
    show ?thesis
    proof (cases t)
      case (Scalar x)
      then show ?thesis by (simp add: kv Tensor)
    next
      case (Arr ts)
      then show ?thesis
        using Cons.IH [OF d] upd by (simp add: kv Tensor)
    qed
  qed (use Cons.IH [OF d] upd in \<open>simp_all add: kv\<close>)
qed

lemma writes_out_of_range:
  "length st \<le> u + j \<Longrightarrow>
   foldl (\<lambda>st (i, v). setitem st (u + i) key v) st (enumerate j vs) = st"
  by (induction vs arbitrary: j) (simp_all add: setitem_def list_update_beyond)

lemma inner_assign_column:
  "foldl (\<lambda>st (i, v). setitem st (length st0 + i) key v) (st0 @ pre @ ds) (enumerate (length pre) vs)
     = st0 @ pre @ assign_column key vs ds"
proof (induction vs arbitrary: pre ds)
  case Nil
  show ?case by simp
next
  case step: (Cons v vs)
  show ?case
  proof (cases ds)
    case Nil
    then show ?thesis
      using writes_out_of_range [of "st0 @ pre" "length st0" "length pre" key "v # vs"] by simp
  next
    case (Cons d ds')
    have "setitem (st0 @ pre @ d # ds') (length st0 + length pre) key v
            = st0 @ (pre @ [AList.update key v d]) @ ds'"
      by (simp add: setitem_def list_update_append nth_append)
    with step.IH [of "pre @ [AList.update key v d]" ds'] show ?thesis
      by (simp add: Cons)
  qed
qed

lemma outer_assign_column:
  "foldl (\<lambda>st (key, values).
            foldl (\<lambda>st (i, v). setitem st (length st0 + i) key v) st (enumerate 0 (py_iter values)))
         (st0 @ ds) items
     = st0 @ foldl (\<lambda>uncollated (key, vs). assign_column key (py_iter vs) uncollated) ds items"
proof (induction items arbitrary: ds)
  case Nil
  show ?case by simp
next
  case (Cons kv items)
  obtain k v where kv: "kv = (k, v)" by (cases kv)
  show ?case
    using inner_assign_column [of st0 k "[]" ds "py_iter v"] Cons.IH by (simp add: kv)
qed

lemma dict_list_to_list_dict_at_result:
  "dict_list_to_list_dict_at st a =
     (case dict_list_to_list_dict (st ! a) of
        Inl e \<Rightarrow> (st, Inl e)
      | Inr ds \<Rightarrow> (st @ ds, Inr [length st ..< length st + length ds]))"
proof (cases "lengths (map snd (st ! a))")
  case (Inl e)
  then show ?thesis
    by (simp add: dict_list_to_list_dict_at_def dict_list_to_list_dict_def)
next
  case (Inr ns)
  have len: "length (foldl (\<lambda>uncollated (key, vs). assign_column key (py_iter vs) uncollated) ds items)
               = length ds" for ds and items :: sample
    by (induction items arbitrary: ds) (auto simp: assign_column_length)
  show ?thesis
    by (simp add: dict_list_to_list_dict_at_def dict_list_to_list_dict_def Inr Let_def
                     outer_assign_column len)
qed

lemma unbind_samples_at_result:
  assumes "a < length st"
  shows "unbind_samples_at st a =
     (case unbind_samples (st ! a) of
        (sample', Inl e) \<Rightarrow> (st[a := sample'], Inl e)
      | (sample', Inr ds) \<Rightarrow> (st[a := sample'] @ ds, Inr [length st ..< length st + length ds]))"
proof (cases "unbind_loop (st ! a) (st ! a)")
  case (Pair sample' r)
  show ?thesis
    using assms
    by (auto simp: unbind_samples_at_def unbind_samples_def for_each_unbind_step Pair
                   dict_list_to_list_dict_at_result split: option.splits sum.splits)
qed

lemma append_value_lists:
  "append_value k v (map (\<lambda>(k, vs). (k, PList vs)) c)
     = map (\<lambda>(k, vs). (k, PList vs)) (append_item k v c)"
  by (induction c) auto

lemma append_item_keys:
  "map fst (append_item k v c) = (if k \<in> fst ` set c then map fst c else map fst c @ [k])"
  by (induction c) force+

lemma append_item_distinct: "distinct (map fst c) \<Longrightarrow> distinct (map fst (append_item k v c))"
  by (simp add: append_item_keys)

lemma list_dict_to_dict_list_distinct: "distinct (map fst (list_dict_to_dict_list samples))"
proof -
  have inner: "distinct (map fst (foldl (\<lambda>c (key, v). append_item key v c) c s))"
    if "distinct (map fst c)" for c and s :: sample
    using that by (induction s arbitrary: c) (auto simp: append_item_distinct)
  have "distinct (map fst (foldl (\<lambda>collated sample. foldl (\<lambda>c (key, v). append_item key v c) collated sample) c samples))"
    if "distinct (map fst c)" for c
    using that by (induction samples arbitrary: c) (auto simp: inner)
  then show ?thesis
    by (simp add: list_dict_to_dict_list_def)
qed

lemma inner_append_at:
  "foldl (\<lambda>st (key, v). append_at st (length st0) key v) (st0 @ [map (\<lambda>(k, vs). (k, PList vs)) c]) items
     = st0 @ [map (\<lambda>(k, vs). (k, PList vs)) (foldl (\<lambda>c (key, v). append_item key v c) c items)]"
proof (induction items arbitrary: c)
  case Nil
  show ?case by simp
next
  case (Cons kv items)
  obtain k v where kv: "kv = (k, v)" by (cases kv)
  show ?case
    using Cons.IH [of "append_item k v c"]
    by (simp add: kv append_at_def append_value_lists)
qed

lemma outer_append_at:
  assumes "\<forall>a \<in> set samples. a < length st0"
  shows "foldl (\<lambda>st a. foldl (\<lambda>st (key, v). append_at st (length st0) key v) st (st ! a))
               (st0 @ [map (\<lambda>(k, vs). (k, PList vs)) c]) samples
     = st0 @ [map (\<lambda>(k, vs). (k, PList vs))
                (foldl (\<lambda>collated sample. foldl (\<lambda>c (key, v). append_item key v c) collated sample)
                       c (map ((!) st0) samples))]"
  using assms
proof (induction samples arbitrary: c)
  case Nil
  show ?case by simp
next
  case (Cons a samples)
  then have a: "a < length st0" by simp
  show ?case
    using Cons.IH [of "foldl (\<lambda>c (key, v). append_item key v c) c (st0 ! a)"] Cons.prems a
    by (simp add: nth_append inner_append_at)
qed

lemma list_dict_to_dict_list_at_result:
  assumes "\<forall>a \<in> set samples. a < length st"
  shows "list_dict_to_dict_list_at st samples =
     (st @ [map (\<lambda>(k, vs). (k, PList vs)) (list_dict_to_dict_list (map ((!) st) samples))], length st)"
  using outer_append_at [OF assms, of "[]"]
  by (simp add: list_dict_to_dict_list_at_def list_dict_to_dict_list_def Let_def)

lemma stack_step_value:
  "k \<notin> fst ` set pre \<Longrightarrow>
   stack_step (length st0) (st0 @ [pre @ (k, PList vs) # rest]) (k, PList vs) =
     (case stack_value vs of
        Inl e \<Rightarrow> (st0 @ [pre @ (k, PList vs) # rest], Some e)
      | Inr w \<Rightarrow> (st0 @ [pre @ (k, w) # rest], None))"
  by (auto simp: stack_step_def stack_value_def setitem_def update_middle
           split: list.splits option.splits sum.splits)

lemma concat_step_value:
  "k \<notin> fst ` set pre \<Longrightarrow>
   concat_step (length st0) (st0 @ [pre @ (k, PList vs) # rest]) (k, PList vs) =
     (case concat_value vs of
        Inl e \<Rightarrow> (st0 @ [pre @ (k, PList vs) # rest], Some e)
      | Inr w \<Rightarrow> (st0 @ [pre @ (k, w) # rest], None))"
  by (auto simp: concat_step_def concat_value_def setitem_def update_middle
           split: list.splits option.splits sum.splits)

lemma for_each_values:
  assumes step: "\<And>k vs pre rest. k \<notin> fst ` set pre \<Longrightarrow>
      body (st0 @ [pre @ (k, PList vs) # rest]) (k, PList vs) =
        (case f vs of
           Inl e \<Rightarrow> (st0 @ [pre @ (k, PList vs) # rest], Some e)
         | Inr w \<Rightarrow> (st0 @ [pre @ (k, w) # rest], None))"
    and "distinct (map fst pre @ map fst col)"
  shows "case map_values f col of
           Inl e \<Rightarrow>
             snd (for_each body (st0 @ [pre @ map (\<lambda>(k, vs). (k, PList vs)) col])
                    (map (\<lambda>(k, vs). (k, PList vs)) col)) = Some e
         | Inr r \<Rightarrow>
             for_each body (st0 @ [pre @ map (\<lambda>(k, vs). (k, PList vs)) col])
               (map (\<lambda>(k, vs). (k, PList vs)) col) = (st0 @ [pre @ r], None)"
  using assms(2)
proof (induction col arbitrary: pre)
  case Nil
  show ?case by simp
next
  case (Cons kvs col)
  obtain k vs where kvs: "kvs = (k, vs)" by (cases kvs)
  from Cons.prems have fresh: "k \<notin> fst ` set pre"
    by (auto simp: kvs)
  note s = step [OF fresh, of vs "map (\<lambda>(k, vs). (k, PList vs)) col"]
  show ?case
  proof (cases "f vs")
    case (Inl e)
    then show ?thesis
      using s by (simp add: kvs)
  next
    case (Inr w)
    have d: "distinct (map fst (pre @ [(k, w)]) @ map fst col)"
      using Cons.prems by (simp add: kvs)
    show ?thesis
      using Cons.IH [OF d] s by (simp add: kvs Inr split: sum.splits)
  qed
qed

lemma stack_samples_at_result:
  assumes "\<forall>a \<in> set samples. a < length st"
  shows "case stack_samples (map ((!) st) samples) of
           Inl e \<Rightarrow> snd (stack_samples_at st samples) = Inl e
         | Inr d \<Rightarrow> stack_samples_at st samples = (st @ [d], Inr (length st))"
proof -
  let ?col = "list_dict_to_dict_list (map ((!) st) samples)"
  have "distinct (map fst ([]::sample) @ map fst ?col)"
    by (simp add: list_dict_to_dict_list_distinct)
  from for_each_values [of "stack_step (length st)" st stack_value, OF stack_step_value this]
  show ?thesis
    by (auto simp: stack_samples_at_def stack_samples_def list_dict_to_dict_list_at_result [OF assms]
             split: sum.splits prod.splits option.splits)
qed

lemma concat_samples_at_result:
  assumes "\<forall>a \<in> set samples. a < length st"
  shows "case concat_samples (map ((!) st) samples) of
           Inl e \<Rightarrow> snd (concat_samples_at st samples) = Inl e
         | Inr d \<Rightarrow> concat_samples_at st samples = (st @ [d], Inr (length st))"
proof -
  let ?col = "list_dict_to_dict_list (map ((!) st) samples)"
  have "distinct (map fst ([]::sample) @ map fst ?col)"
    by (simp add: list_dict_to_dict_list_distinct)
  from for_each_values [of "concat_step (length st)" st concat_value, OF concat_step_value this]
  show ?thesis
    by (auto simp: concat_samples_at_def concat_samples_def list_dict_to_dict_list_at_result [OF assms]
             split: sum.splits prod.splits option.splits)
qed

lemma merge_step_item:
  "merge_step (length st0) (st0 @ [d]) kv =
     (case merge_item d kv of
        Inl e \<Rightarrow> (st0 @ [d], Some e)
      | Inr d' \<Rightarrow> (st0 @ [d'], None))"
  by (auto simp: merge_step_def merge_item_def setitem_def
           split: prod.splits option.splits sum.splits pyval.splits)

lemma for_each_merge_step:
  "case fold_err merge_item d items of
     Inl e \<Rightarrow> \<exists>d'. for_each (merge_step (length st0)) (st0 @ [d]) items = (st0 @ [d'], Some e)
   | Inr d' \<Rightarrow> for_each (merge_step (length st0)) (st0 @ [d]) items = (st0 @ [d'], None)"
proof (induction items arbitrary: d)
  case Nil
  show ?case by simp
next
  case (Cons kv items)
  show ?case
  proof (cases "merge_item d kv")
    case (Inl e)
    then show ?thesis
      by (simp add: merge_step_item)
  next
    case (Inr d')
    then show ?thesis
      using Cons.IH [of d'] by (simp add: merge_step_item split: sum.splits)
  qed
qed

lemma for_each_merge_samples:
  assumes "\<forall>a \<in> set samples. a < length st0"
  shows "case fold_err (\<lambda>collated sample. fold_err merge_item collated sample) d (map ((!) st0) samples) of
           Inl e \<Rightarrow>
             snd (for_each (\<lambda>st a. for_each (merge_step (length st0)) st (st ! a)) (st0 @ [d]) samples)
               = Some e
         | Inr d' \<Rightarrow>
             for_each (\<lambda>st a. for_each (merge_step (length st0)) st (st ! a)) (st0 @ [d]) samples
               = (st0 @ [d'], None)"
  using assms
proof (induction samples arbitrary: d)
  case Nil
  show ?case by simp
next
  case (Cons a samples)
  then have a: "(st0 @ [d]) ! a = st0 ! a"
    by (simp add: nth_append)
  have rest: "\<forall>a \<in> set samples. a < length st0"
    using Cons.prems by simp
  show ?case
  proof (cases "fold_err merge_item d (st0 ! a)")
    case (Inl e)
    then show ?thesis
      using for_each_merge_step [of st0 d "st0 ! a"] by (auto simp: a)
  next
    case (Inr d')
    then show ?thesis
      using for_each_merge_step [of st0 d "st0 ! a"] Cons.IH [OF rest, of d']
      by (simp add: a split: sum.splits)
  qed
qed

lemma merge_samples_at_result:
  assumes "\<forall>a \<in> set samples. a < length st"
  shows "case merge_samples (map ((!) st) samples) of
           Inl e \<Rightarrow> snd (merge_samples_at st samples) = Inl e
         | Inr d \<Rightarrow> merge_samples_at st samples = (st @ [d], Inr (length st))"
  using for_each_merge_samples [OF assms, of "[]"]
  by (auto simp: merge_samples_at_def merge_samples_def Let_def split: sum.splits prod.splits option.splits)

subsection \<open>What the calls write\<close>

lemma frame_refl: "n \<le> length st \<Longrightarrow> frame n W st st"
  by (simp add: frame_def)

lemma frame_trans: "frame n W st st' \<Longrightarrow> frame n W st' st'' \<Longrightarrow> frame n W st st''"
  by (simp add: frame_def)

lemma frame_length: "frame n W st st' \<Longrightarrow> n \<le> length st'"
  by (simp add: frame_def)

lemma frame_write:
  assumes "n \<le> length st" and "c \<in> W \<or> n \<le> c"
  shows "frame n W st (st[c := d])"
proof -
  have "st[c := d] ! b = st ! b" if "b < n" and "b \<notin> W" for b
  proof -
    from that assms(2) have "b \<noteq> c" by auto
    then show ?thesis by simp
  qed
  with assms(1) show ?thesis
    by (simp add: frame_def)
qed

lemma frame_setitem: "n \<le> length st \<Longrightarrow> c \<in> W \<or> n \<le> c \<Longrightarrow> frame n W st (setitem st c k v)"
  by (simp add: setitem_def frame_write)

lemma frame_append_at: "n \<le> length st \<Longrightarrow> c \<in> W \<or> n \<le> c \<Longrightarrow> frame n W st (append_at st c k v)"
  by (simp add: append_at_def frame_write)

lemma frame_alloc: "n \<le> length st \<Longrightarrow> frame n W st (st @ ds)"
  by (simp add: frame_def nth_append)

lemma frame_foldl:
  assumes "\<And>st x. n \<le> length st \<Longrightarrow> frame n W st (f st x)" and "n \<le> length st"
  shows "frame n W st (foldl f st xs)"
  using assms(2)
proof (induction xs arbitrary: st)
  case Nil
  then show ?case by (simp add: frame_refl)
next
  case (Cons x xs)
  have step: "frame n W st (f st x)"
    using assms(1) Cons.prems by simp
  have "frame n W (f st x) (foldl f (f st x) xs)"
    using Cons.IH frame_length [OF step] by simp
  with step show ?case
    by (simp add: frame_trans)
qed

lemma frame_for_each:
  assumes "\<And>st x. n \<le> length st \<Longrightarrow> frame n W st (fst (body st x))" and "n \<le> length st"
  shows "frame n W st (fst (for_each body st xs))"
  using assms(2)
proof (induction xs arbitrary: st)
  case Nil
  then show ?case by (simp add: frame_refl)
next
  case (Cons x xs)
  have step: "frame n W st (fst (body st x))"
    using assms(1) Cons.prems by simp
  have "frame n W (fst (body st x)) (fst (for_each body (fst (body st x)) xs))"
    using Cons.IH frame_length [OF step] by simp
  with step have "frame n W st (fst (for_each body (fst (body st x)) xs))"
    by (rule frame_trans)
  with step show ?case
    by (cases "body st x") (auto split: option.splits)
qed

lemma frame_list_dict_to_dict_list_at:
  "frame (length st) W st (fst (list_dict_to_dict_list_at st samples))"
proof -
  let ?n = "length st"
  have inner: "frame ?n W s (foldl (\<lambda>st (key, v). append_at st ?n key v) s items)"
    if "?n \<le> length s" for s :: store and items
    using _ that by (rule frame_foldl) (auto simp: frame_append_at)
  have "frame ?n W (st @ [[]])
          (foldl (\<lambda>st a. foldl (\<lambda>st (key, v). append_at st ?n key v) st (st ! a)) (st @ [[]]) samples)"
    by (rule frame_foldl) (simp_all add: inner)
  moreover have "frame ?n W st (st @ [[]])"
    by (simp add: frame_alloc)
  ultimately show ?thesis
    by (simp add: list_dict_to_dict_list_at_def Let_def frame_trans)
qed

lemma snd_list_dict_to_dict_list_at: "snd (list_dict_to_dict_list_at st samples) = length st"
  by (simp add: list_dict_to_dict_list_at_def Let_def)

lemma frame_stack_step: "n \<le> length st \<Longrightarrow> n \<le> c \<Longrightarrow> frame n W st (fst (stack_step c st kv))"
  by (auto simp: stack_step_def frame_refl frame_setitem split: prod.splits list.splits option.splits sum.splits)

lemma frame_concat_step: "n \<le> length st \<Longrightarrow> n \<le> c \<Longrightarrow> frame n W st (fst (concat_step c st kv))"
  by (auto simp: concat_step_def frame_refl frame_setitem split: prod.splits list.splits option.splits sum.splits)

lemma frame_merge_step: "n \<le> length st \<Longrightarrow> n \<le> c \<Longrightarrow> frame n W st (fst (merge_step c st kv))"
  by (auto simp: merge_step_def frame_refl frame_setitem split: prod.splits option.splits sum.splits pyval.splits)

lemma frame_unbind_step: "n \<le> length st \<Longrightarrow> frame n {a} st (fst (unbind_step a st kv))"
  by (auto simp: unbind_step_def frame_refl frame_setitem split: prod.splits sum.splits pyval.splits)

lemma frame_stack_samples_at: "frame (length st) W st (fst (stack_samples_at st samples))"
proof -
  obtain st1 c where l: "list_dict_to_dict_list_at st samples = (st1, c)"
    by (cases "list_dict_to_dict_list_at st samples")
  have c: "c = length st"
    using snd_list_dict_to_dict_list_at [of st samples] l by simp
  have f1: "frame (length st) W st st1"
    using frame_list_dict_to_dict_list_at [of st W samples] l by simp
  have "frame (length st) W st1 (fst (for_each (stack_step c) st1 (st1 ! c)))"
    using _ frame_length [OF f1] by (rule frame_for_each) (simp add: frame_stack_step c)
  with f1 have "frame (length st) W st (fst (for_each (stack_step c) st1 (st1 ! c)))"
    by (rule frame_trans)
  then show ?thesis
    by (auto simp: stack_samples_at_def l split: prod.splits option.splits)
qed

lemma frame_concat_samples_at: "frame (length st) W st (fst (concat_samples_at st samples))"
proof -
  obtain st1 c where l: "list_dict_to_dict_list_at st samples = (st1, c)"
    by (cases "list_dict_to_dict_list_at st samples")
  have c: "c = length st"
    using snd_list_dict_to_dict_list_at [of st samples] l by simp
  have f1: "frame (length st) W st st1"
    using frame_list_dict_to_dict_list_at [of st W samples] l by simp
  have "frame (length st) W st1 (fst (for_each (concat_step c) st1 (st1 ! c)))"
    using _ frame_length [OF f1] by (rule frame_for_each) (simp add: frame_concat_step c)
  with f1 have "frame (length st) W st (fst (for_each (concat_step c) st1 (st1 ! c)))"
    by (rule frame_trans)
  then show ?thesis
    by (auto simp: concat_samples_at_def l split: prod.splits option.splits)
qed

lemma frame_merge_samples_at: "frame (length st) W st (fst (merge_samples_at st samples))"
proof -
  let ?n = "length st"
  have inner: "frame ?n W s (fst (for_each (merge_step ?n) s items))"
    if "?n \<le> length s" for s :: store and items
    using _ that by (rule frame_for_each) (simp add: frame_merge_step)
  have "frame ?n W (st @ [[]])
          (fst (for_each (\<lambda>st a. for_each (merge_step ?n) st (st ! a)) (st @ [[]]) samples))"
    by (rule frame_for_each) (simp_all add: inner)
  moreover have "frame ?n W st (st @ [[]])"
    by (simp add: frame_alloc)
  ultimately have "frame ?n W st
          (fst (for_each (\<lambda>st a. for_each (merge_step ?n) st (st ! a)) (st @ [[]]) samples))"
    by (rule frame_trans [rotated])
  then show ?thesis
    by (auto simp: merge_samples_at_def Let_def split: prod.splits option.splits)
qed

lemma frame_dict_list_to_list_dict_at:
  "frame (length st) W st (fst (dict_list_to_list_dict_at st a))"
proof -
  let ?n = "length st"
  have inner: "frame ?n W s (foldl (\<lambda>st (i, v). setitem st (?n + i) key v) s ivs)"
    if "?n \<le> length s" for s :: store and key and ivs :: "(nat \<times> pyval) list"
    using _ that by (rule frame_foldl) (auto simp: frame_setitem)
  have outer: "frame ?n W (st @ replicate m [])
          (foldl (\<lambda>st (key, values).
                    foldl (\<lambda>st (i, v). setitem st (?n + i) key v) st (enumerate 0 (py_iter values)))
                 (st @ replicate m []) items)" for m and items :: sample
    by (rule frame_foldl) (auto simp: inner)
  have "frame ?n W st (st @ replicate m [])" for m
    by (simp add: frame_alloc)
  then have "frame ?n W st
          (foldl (\<lambda>st (key, values).
                    foldl (\<lambda>st (i, v). setitem st (?n + i) key v) st (enumerate 0 (py_iter values)))
                 (st @ replicate m []) items)" for m and items :: sample
    using outer by (rule frame_trans)
  then show ?thesis
    by (auto simp: dict_list_to_list_dict_at_def Let_def frame_refl split: sum.splits)
qed

lemma frame_unbind_samples_at: "frame (length st) {a} st (fst (unbind_samples_at st a))"
proof -
  obtain st1 r where l: "for_each (unbind_step a) st (st ! a) = (st1, r)"
    by (cases "for_each (unbind_step a) st (st ! a)")
  have "frame (length st) {a} st (fst (for_each (unbind_step a) st (st ! a)))"
    by (rule frame_for_each) (simp_all add: frame_unbind_step)
  then have f1: "frame (length st) {a} st st1"
    by (simp add: l)
  have "frame (length st1) {a} st1 (fst (dict_list_to_list_dict_at st1 a))"
    by (rule frame_dict_list_to_list_dict_at)
  then have "frame (length st) {a} st1 (fst (dict_list_to_list_dict_at st1 a))"
    using frame_length [OF f1] by (simp add: frame_def)
  with f1 have "frame (length st) {a} st (fst (dict_list_to_list_dict_at st1 a))"
    by (rule frame_trans)
  with f1 show ?thesis
    by (auto simp: unbind_samples_at_def l split: option.splits)
qed

lemma unbind_samples_at_target:
  assumes "a < length st" and "distinct (map fst (st ! a))"
  shows "fst (unbind_samples_at st a) ! a = unbound_upto (st ! a)"
proof -
  have "fst (unbind_loop (st ! a) (st ! a)) = unbound_upto (st ! a)"
    using unbind_loop_upto [of "[]" "st ! a"] assms(2) by simp
  then show ?thesis
    using assms(1)
    by (auto simp: unbind_samples_at_result unbind_samples_def nth_append
             split: prod.splits option.splits sum.splits)
qed

text \<open>
  Claim C6, as the code has it. A call of \<open>stack_samples\<close>, \<open>concat_samples\<close> or
  \<open>merge_samples\<close> writes only to the dict it allocates: every dict that existed
  before the call is as it was, whether the call returns or raises. A call of
  \<open>unbind_samples\<close> leaves every other dict as it was, but writes to the sample it is
  given (a dict, so with distinct keys): in the order of the keys it replaces each
  tensor by the tuple of its slices along the leading axis, the other values
  staying; at a zero-dimensional tensor \<open>torch.unbind\<close> raises, and that value and
  every later one stay as they were.
\<close>

theorem collation_writes:
  "(\<forall>b < length st. fst (stack_samples_at st samples) ! b = st ! b)
 \<and> (\<forall>b < length st. fst (concat_samples_at st samples) ! b = st ! b)
 \<and> (\<forall>b < length st. fst (merge_samples_at st samples) ! b = st ! b)
 \<and> (\<forall>b < length st. b \<noteq> a \<longrightarrow> fst (unbind_samples_at st a) ! b = st ! b)
 \<and> (a < length st \<and> distinct (map fst (st ! a)) \<longrightarrow>
      fst (unbind_samples_at st a) ! a = unbound_upto (st ! a))"
  using frame_stack_samples_at [of st "{}" samples] frame_concat_samples_at [of st "{}" samples]
    frame_merge_samples_at [of st "{}" samples] frame_unbind_samples_at [of st a]
    unbind_samples_at_target [of a st]
  by (simp add: frame_def)

theorem collation_writes_witness:
  "(0::nat) < length example_store \<and> (1::nat) < length example_store
 \<and> distinct (map fst (example_store ! 0))
 \<and> fst (stack_samples_at example_store [0, 1]) ! 0 = example_store ! 0
 \<and> fst (stack_samples_at example_store [0, 1]) ! 1 = example_store ! 1
 \<and> fst (concat_samples_at example_store [0, 1]) ! 0 = example_store ! 0
 \<and> fst (concat_samples_at example_store [0, 1]) ! 1 = example_store ! 1
 \<and> fst (merge_samples_at example_store [0, 1]) ! 0 = example_store ! 0
 \<and> fst (merge_samples_at example_store [0, 1]) ! 1 = example_store ! 1
 \<and> fst (unbind_samples_at example_store 0) ! 1 = example_store ! 1
 \<and> fst (unbind_samples_at example_store 0) ! 0
      = [(''image'', PTuple [Tensor (Scalar 1), Tensor (Scalar 2)]), (''crs'', PStr ''EPSG:4326'')]
 \<and> (0::nat) < length example_store0
 \<and> distinct (map fst (example_store0 ! 0))
 \<and> fst (unbind_samples_at example_store0 0) ! 0
      = [(''image'', PTuple [Tensor (Scalar 1), Tensor (Scalar 2)]), (''n'', Tensor (Scalar 7)),
         (''mask'', Tensor (Arr [Scalar 3, Scalar 4]))]"
  using collation_writes [of example_store "[0, 1]" 0] collation_writes [of example_store0 "[]" 0]
  by (simp add: example_store_def example_store0_def)

text \<open>
  The claim as written fails for \<open>unbind_samples\<close>: after the call the caller's
  sample holds a tuple where it held a tensor.
\<close>

theorem unbind_samples_mutates_counterexample:
  "unbind_samples_at [[(''image'', Tensor (Arr [Scalar 1, Scalar 2]))]] 0
     = ([[(''image'', PTuple [Tensor (Scalar 1), Tensor (Scalar 2)])],
         [(''image'', Tensor (Scalar 1))], [(''image'', Tensor (Scalar 2))]],
        Inr [1, 2])
 \<and> fst (unbind_samples_at [[(''image'', Tensor (Arr [Scalar 1, Scalar 2]))]] 0) ! 0
     \<noteq> [[(''image'', Tensor (Arr [Scalar 1, Scalar 2]))]] ! 0"
  by (simp add: unbind_samples_at_def unbind_step_def setitem_def dict_list_to_list_dict_at_def
                enumerate_eq_zip upt_rec)

subsection \<open>The maximum of tensors of one shape\<close>

lemma broadcast_rev_same: "broadcast_rev s s = Some s"
  by (induction s) auto

lemma same_shape_slices:
  assumes "rectangular (Arr xs)" "rectangular (Arr ys)" "shape (Arr xs) = shape (Arr ys)"
    and "(x, y) \<in> set (zip xs ys)"
  shows "rectangular x \<and> rectangular y \<and> shape x = shape y"
proof -
  from assms(4) have x: "x \<in> set xs" and y: "y \<in> set ys"
    by (auto dest: set_zip_leftD set_zip_rightD)
  then obtain x0 xs' y0 ys' where xs: "xs = x0 # xs'" and ys: "ys = y0 # ys'"
    by (cases xs; cases ys) auto
  from assms(3) have "shape x0 = shape y0" by (simp add: xs ys)
  moreover from assms(1) x have "rectangular x" "shape x = shape x0" by (auto simp: xs)
  moreover from assms(2) y have "rectangular y" "shape y = shape y0" by (auto simp: ys)
  ultimately show ?thesis by simp
qed

lemma broadcast_max_same_shape:
  "rectangular a \<Longrightarrow> rectangular b \<Longrightarrow> shape a = shape b \<Longrightarrow>
   broadcast_max a b = elementwise_max a b \<and> shape (elementwise_max a b) = shape a
   \<and> rectangular (elementwise_max a b)"
proof (induction a b rule: elementwise_max.induct)
  case (1 a b)
  then show ?case by simp
next
  case (2 xs ys)
  have len: "length xs = length ys" using "2.prems"(3) by simp
  have IH: "\<And>x y. (x, y) \<in> set (zip xs ys) \<Longrightarrow>
     broadcast_max x y = elementwise_max x y \<and> shape (elementwise_max x y) = shape x
     \<and> rectangular (elementwise_max x y)"
    using "2.IH" same_shape_slices [OF "2.prems"] by blast
  have eq: "map (\<lambda>(x, y). broadcast_max x y) (zip xs ys) = map (\<lambda>(x, y). elementwise_max x y) (zip xs ys)"
    using IH by (auto intro!: map_cong)
  have bm: "broadcast_max (Arr xs) (Arr ys) = elementwise_max (Arr xs) (Arr ys)"
    using len "2.prems"(3) eq by (simp add: rank_def)
  show ?case
  proof (cases xs)
    case Nil
    then show ?thesis using bm len by simp
  next
    case (Cons x0 xs')
    with len obtain y0 ys' where ys: "ys = y0 # ys'" by (cases ys) auto
    have sh: "\<And>x y. (x, y) \<in> set (zip xs ys) \<Longrightarrow> shape (elementwise_max x y) = shape x0"
    proof -
      fix x y assume xy: "(x, y) \<in> set (zip xs ys)"
      then have "x \<in> set xs" by (auto dest: set_zip_leftD)
      with "2.prems"(1) have "shape x = shape x0" by (auto simp: Cons)
      with IH [OF xy] show "shape (elementwise_max x y) = shape x0" by simp
    qed
    have hd0: "(x0, y0) \<in> set (zip xs ys)" by (simp add: Cons ys)
    have em: "elementwise_max (Arr xs) (Arr ys) = Arr (map (\<lambda>(x, y). elementwise_max x y) (zip xs ys))"
      by simp
    have hdm: "hd (map (\<lambda>(x, y). elementwise_max x y) (zip xs ys)) = elementwise_max x0 y0"
      by (simp add: Cons ys)
    have "shape (elementwise_max (Arr xs) (Arr ys)) = shape (Arr xs)"
      using len IH [OF hd0] by (simp add: Cons ys)
    moreover have "rectangular (elementwise_max (Arr xs) (Arr ys))"
      unfolding em rectangular.simps hdm
    proof
      fix t assume "t \<in> set (map (\<lambda>(x, y). elementwise_max x y) (zip xs ys))"
      then obtain x y where xy: "(x, y) \<in> set (zip xs ys)" and t: "t = elementwise_max x y"
        by auto
      from IH [OF xy] sh [OF xy] IH [OF hd0] sh [OF hd0]
      show "rectangular t \<and> shape t = shape (elementwise_max x0 y0)"
        by (simp add: t)
    qed
    ultimately show ?thesis using bm by simp
  qed
qed simp_all

lemma torch_maximum_same_shape:
  assumes "rectangular a" "rectangular b" "shape a = shape b"
  shows "torch_maximum a b = Inr (elementwise_max a b)"
proof -
  have "broadcast_max a b = elementwise_max a b"
    using broadcast_max_same_shape [OF assms] by blast
  then show ?thesis
    by (simp add: torch_maximum_def assms(3) broadcast_rev_same)
qed

lemma fold_err_torch_maximum:
  "rectangular a \<Longrightarrow> \<forall>u \<in> set ts. rectangular u \<and> shape u = shape a \<Longrightarrow>
   fold_err torch_maximum a ts = Inr (foldl elementwise_max a ts)"
proof (induction ts arbitrary: a)
  case Nil
  then show ?case by simp
next
  case (Cons t ts)
  then have t: "rectangular t" "shape a = shape t" by simp_all
  have r: "rectangular (elementwise_max a t)" and sh: "shape (elementwise_max a t) = shape a"
    using broadcast_max_same_shape [OF Cons.prems(1) t] by blast+
  have "\<forall>u \<in> set ts. rectangular u \<and> shape u = shape (elementwise_max a t)"
    using Cons.prems(2) sh by simp
  from Cons.IH [OF r this] show ?case
    by (simp add: torch_maximum_same_shape [OF Cons.prems(1) t])
qed

subsection \<open>Merging, key by key\<close>

lemma merge_item_value:
  "merge_item c (k, v) =
     (case merge_value (map_of c k) v of Inl e \<Rightarrow> Inl e | Inr v' \<Rightarrow> Inr (AList.update k v' c))"
proof (cases "map_of c k")
  case None
  then show ?thesis by (simp add: merge_item_def split: pyval.splits)
next
  case (Some old)
  then show ?thesis
    by (cases old; cases v) (simp_all add: merge_item_def split: sum.splits)
qed

lemma merge_value_not_Tensor: "\<not> is_Tensor v \<Longrightarrow> merge_value c v = Inr v"
  by (cases "(c, v)" rule: merge_value.cases) simp_all

lemma cell_Cons: "cell ((k0, v0) # s) k = (if k = k0 then [v0] else cell s k)"
  by (simp add: cell_def)

lemma cell_fresh: "k \<notin> fst ` set s \<Longrightarrow> cell s k = []"
  using map_of_eq_None_iff [of s k] by (simp add: cell_def)

lemma column_Cons: "column k (s # batch) = cell s k @ column k batch"
  by (simp add: column_def cell_def split: option.splits)

lemma column_Nil: "column k [] = []"
  by (simp add: column_def)

lemma merge_cell_append:
  "merge_cell c (xs @ ys) = (case merge_cell c xs of Inl e \<Rightarrow> Inl e | Inr c' \<Rightarrow> merge_cell c' ys)"
proof (induction xs arbitrary: c)
  case Nil
  show ?case by simp
next
  case (Cons x xs)
  show ?case by (simp add: Cons.IH split: sum.splits)
qed

lemma merge_sample_result:
  "distinct (map fst s) \<Longrightarrow> fold_err merge_item c s = Inr c' \<Longrightarrow>
   merge_cell (map_of c k) (cell s k) = Inr (map_of c' k)"
proof (induction s arbitrary: c)
  case Nil
  then show ?case by (simp add: cell_def)
next
  case (Cons kv s)
  obtain k0 v0 where kv: "kv = (k0, v0)" by (cases kv)
  from Cons.prems(2) obtain v' where
    mv: "merge_value (map_of c k0) v0 = Inr v'" and
    rest: "fold_err merge_item (AList.update k0 v' c) s = Inr c'"
    by (auto simp: kv merge_item_value split: sum.splits)
  from Cons.prems(1) have d: "distinct (map fst s)" and fresh: "k0 \<notin> fst ` set s"
    by (auto simp: kv)
  note IH = Cons.IH [OF d rest]
  show ?case
  proof (cases "k = k0")
    case True
    with IH fresh have "map_of c' k0 = Some v'"
      by (simp add: cell_fresh update_conv')
    with True mv show ?thesis by (simp add: kv cell_Cons)
  next
    case False
    with IH show ?thesis by (simp add: kv cell_Cons update_conv')
  qed
qed

lemma merge_sample_succeeds:
  "distinct (map fst s) \<Longrightarrow> \<forall>k. \<exists>r. merge_cell (map_of c k) (cell s k) = Inr r \<Longrightarrow>
   \<exists>c'. fold_err merge_item c s = Inr c'"
proof (induction s arbitrary: c)
  case Nil
  then show ?case by simp
next
  case (Cons kv s)
  obtain k0 v0 where kv: "kv = (k0, v0)" by (cases kv)
  from Cons.prems(1) have d: "distinct (map fst s)" and fresh: "k0 \<notin> fst ` set s"
    by (auto simp: kv)
  from Cons.prems(2) obtain r where "merge_cell (map_of c k0) (cell (kv # s) k0) = Inr r"
    by blast
  then obtain v' where mv: "merge_value (map_of c k0) v0 = Inr v'"
    by (auto simp: kv cell_Cons split: sum.splits)
  have "\<forall>k. \<exists>r. merge_cell (map_of (AList.update k0 v' c) k) (cell s k) = Inr r"
  proof
    fix k
    show "\<exists>r. merge_cell (map_of (AList.update k0 v' c) k) (cell s k) = Inr r"
    proof (cases "k = k0")
      case True
      then show ?thesis by (simp add: cell_fresh [OF fresh])
    next
      case False
      with Cons.prems(2) [rule_format, of k] show ?thesis
        by (simp add: kv cell_Cons update_conv')
    qed
  qed
  from Cons.IH [OF d this] mv show ?case
    by (simp add: kv merge_item_value)
qed

lemma merge_batch_result:
  "\<forall>s \<in> set batch. distinct (map fst s) \<Longrightarrow>
   fold_err (\<lambda>collated sample. fold_err merge_item collated sample) c batch = Inr m \<Longrightarrow>
   merge_cell (map_of c k) (column k batch) = Inr (map_of m k)"
proof (induction batch arbitrary: c)
  case Nil
  then show ?case by (simp add: column_Nil)
next
  case (Cons s batch)
  from Cons.prems(2) obtain c1 where
    one: "fold_err merge_item c s = Inr c1" and
    rest: "fold_err (\<lambda>collated sample. fold_err merge_item collated sample) c1 batch = Inr m"
    by (auto split: sum.splits)
  from Cons.prems(1) have d: "distinct (map fst s)" and ds: "\<forall>s \<in> set batch. distinct (map fst s)"
    by simp_all
  show ?case
    using merge_sample_result [OF d one, of k] Cons.IH [OF ds rest]
    by (simp add: column_Cons merge_cell_append)
qed

lemma merge_batch_succeeds:
  "\<forall>s \<in> set batch. distinct (map fst s) \<Longrightarrow>
   \<forall>k. \<exists>r. merge_cell (map_of c k) (column k batch) = Inr r \<Longrightarrow>
   \<exists>m. fold_err (\<lambda>collated sample. fold_err merge_item collated sample) c batch = Inr m"
proof (induction batch arbitrary: c)
  case Nil
  then show ?case by simp
next
  case (Cons s batch)
  from Cons.prems(1) have d: "distinct (map fst s)" and ds: "\<forall>s \<in> set batch. distinct (map fst s)"
    by simp_all
  have first: "\<forall>k. \<exists>r. merge_cell (map_of c k) (cell s k) = Inr r"
  proof
    fix k
    from Cons.prems(2) obtain r where "merge_cell (map_of c k) (cell s k @ column k batch) = Inr r"
      by (auto simp: column_Cons)
    then show "\<exists>r. merge_cell (map_of c k) (cell s k) = Inr r"
      by (auto simp: merge_cell_append split: sum.splits)
  qed
  from merge_sample_succeeds [OF d first] obtain c1 where one: "fold_err merge_item c s = Inr c1"
    by blast
  have "\<forall>k. \<exists>r. merge_cell (map_of c1 k) (column k batch) = Inr r"
  proof
    fix k
    from Cons.prems(2) obtain r where "merge_cell (map_of c k) (cell s k @ column k batch) = Inr r"
      by (auto simp: column_Cons)
    with merge_sample_result [OF d one, of k]
    show "\<exists>r. merge_cell (map_of c1 k) (column k batch) = Inr r"
      by (simp add: merge_cell_append)
  qed
  from Cons.IH [OF ds this] one show ?case by simp
qed

lemma merge_cell_tensors:
  "merge_cell (Some (Tensor a)) (map Tensor ts) =
     (case fold_err torch_maximum a ts of Inl e \<Rightarrow> Inl e | Inr r \<Rightarrow> Inr (Some (Tensor r)))"
proof (induction ts arbitrary: a)
  case Nil
  show ?case by simp
next
  case (Cons t ts)
  show ?case by (simp add: Cons.IH split: sum.splits)
qed

lemma merge_cell_others:
  "vs \<noteq> [] \<Longrightarrow> \<forall>v \<in> set vs. \<not> is_Tensor v \<Longrightarrow> merge_cell c vs = Inr (Some (last vs))"
proof (induction vs arbitrary: c)
  case Nil
  then show ?case by simp
next
  case (Cons v vs)
  then show ?case
    by (cases "vs = []") (simp_all add: merge_value_not_Tensor)
qed

lemma map_Tensor_eq: "map Tensor ts = map Tensor ts' \<longleftrightarrow> ts = ts'"
  by (simp add: inj_map_eq_map inj_def)

text \<open>
  Claim C8, as the code has it. Take a batch of dicts in which the values of every
  key are either all tensors (rectangular, as every tensor is) of one shape, or all
  not tensors. Then \<open>merge_samples\<close> returns a mapping; a key of no sample is not in
  it; a key with tensor values holds their elementwise maximum; a key with other
  values holds the value of the last sample that has the key. In particular the two
  samples \<open>{m: [0,5,0]}\<close> and \<open>{m: [3,0,0]}\<close> merge into \<open>{m: [3,5,0]}\<close>.
\<close>

theorem merge_samples_maximum:
  assumes dicts: "\<forall>s \<in> set batch. distinct (map fst s)"
    and homog: "\<forall>k. column k batch = []
        \<or> (\<exists>t ts. column k batch = map Tensor (t # ts) \<and> rectangular t
              \<and> (\<forall>u \<in> set ts. rectangular u \<and> shape u = shape t))
        \<or> (\<forall>v \<in> set (column k batch). \<not> is_Tensor v)"
  shows "(\<exists>m. merge_samples batch = Inr m
      \<and> (\<forall>k. (column k batch = [] \<longrightarrow> map_of m k = None)
            \<and> (\<forall>t ts. column k batch = map Tensor (t # ts) \<longrightarrow>
                  map_of m k = Some (Tensor (foldl elementwise_max t ts)))
            \<and> (column k batch \<noteq> [] \<and> (\<forall>v \<in> set (column k batch). \<not> is_Tensor v) \<longrightarrow>
                  map_of m k = Some (last (column k batch)))))
    \<and> merge_samples [[(''m'', Tensor (Arr [Scalar 0, Scalar 5, Scalar 0]))],
                      [(''m'', Tensor (Arr [Scalar 3, Scalar 0, Scalar 0]))]]
        = Inr [(''m'', Tensor (Arr [Scalar 3, Scalar 5, Scalar 0]))]"
proof (intro conjI)
  have tens: "merge_cell None (map Tensor (t # ts)) = Inr (Some (Tensor (foldl elementwise_max t ts)))"
    if "rectangular t" "\<forall>u \<in> set ts. rectangular u \<and> shape u = shape t" for t ts
    using that by (simp add: merge_cell_tensors fold_err_torch_maximum)
  have cells: "\<forall>k. \<exists>r. merge_cell (map_of [] k) (column k batch) = Inr r"
  proof
    fix k
    from homog [rule_format, of k]
    consider "column k batch = []"
      | t ts where "column k batch = map Tensor (t # ts)" "rectangular t"
          "\<forall>u \<in> set ts. rectangular u \<and> shape u = shape t"
      | "column k batch \<noteq> []" "\<forall>v \<in> set (column k batch). \<not> is_Tensor v"
      by blast
    then show "\<exists>r. merge_cell (map_of [] k) (column k batch) = Inr r"
    proof cases
      case 1
      then show ?thesis by simp
    next
      case 2
      then show ?thesis using tens [OF 2(2,3)] by simp
    next
      case 3
      then show ?thesis by (simp add: merge_cell_others)
    qed
  qed
  from merge_batch_succeeds [OF dicts cells] obtain m where
    m: "fold_err (\<lambda>collated sample. fold_err merge_item collated sample) [] batch = Inr m"
    by blast
  have res: "merge_cell None (column k batch) = Inr (map_of m k)" for k
    using merge_batch_result [OF dicts m, of k] by simp
  have "(column k batch = [] \<longrightarrow> map_of m k = None)
      \<and> (\<forall>t ts. column k batch = map Tensor (t # ts) \<longrightarrow>
            map_of m k = Some (Tensor (foldl elementwise_max t ts)))
      \<and> (column k batch \<noteq> [] \<and> (\<forall>v \<in> set (column k batch). \<not> is_Tensor v) \<longrightarrow>
            map_of m k = Some (last (column k batch)))" for k
  proof (intro conjI allI impI)
    assume "column k batch = []"
    with res [of k] show "map_of m k = None" by simp
  next
    fix t ts assume c: "column k batch = map Tensor (t # ts)"
    from homog [rule_format, of k] c
    have "rectangular t \<and> (\<forall>u \<in> set ts. rectangular u \<and> shape u = shape t)"
      by (auto simp: map_Tensor_eq)
    with tens [of t ts] res [of k] c
    show "map_of m k = Some (Tensor (foldl elementwise_max t ts))" by simp
  next
    assume "column k batch \<noteq> [] \<and> (\<forall>v \<in> set (column k batch). \<not> is_Tensor v)"
    with res [of k] show "map_of m k = Some (last (column k batch))"
      by (simp add: merge_cell_others)
  qed
  with m show "\<exists>m. merge_samples batch = Inr m
      \<and> (\<forall>k. (column k batch = [] \<longrightarrow> map_of m k = None)
            \<and> (\<forall>t ts. column k batch = map Tensor (t # ts) \<longrightarrow>
                  map_of m k = Some (Tensor (foldl elementwise_max t ts)))
            \<and> (column k batch \<noteq> [] \<and> (\<forall>v \<in> set (column k batch). \<not> is_Tensor v) \<longrightarrow>
                  map_of m k = Some (last (column k batch))))"
    unfolding merge_samples_def by blast
next
  show "merge_samples [[(''m'', Tensor (Arr [Scalar 0, Scalar 5, Scalar 0]))],
                      [(''m'', Tensor (Arr [Scalar 3, Scalar 0, Scalar 0]))]]
        = Inr [(''m'', Tensor (Arr [Scalar 3, Scalar 5, Scalar 0]))]"
    by (simp add: merge_samples_def merge_item_def torch_maximum_def rank_def)
qed

lemma example_batch_columns:
  "column k example_batch =
     (if k = ''m'' then map Tensor [Arr [Scalar 0, Scalar 5, Scalar 0], Arr [Scalar 3, Scalar 0, Scalar 0]]
      else if k = ''crs'' then [Obj ''a'', Obj ''b''] else [])"
  by (simp add: column_def example_batch_def)

theorem merge_samples_maximum_witness:
  "list_all (\<lambda>s. distinct (map fst s)) example_batch
 \<and> (\<forall>k. column k example_batch = []
        \<or> (\<exists>t ts. column k example_batch = map Tensor (t # ts) \<and> rectangular t
              \<and> (\<forall>u \<in> set ts. rectangular u \<and> shape u = shape t))
        \<or> (\<forall>v \<in> set (column k example_batch). \<not> is_Tensor v))
 \<and> column ''m'' example_batch
      = map Tensor [Arr [Scalar 0, Scalar 5, Scalar 0], Arr [Scalar 3, Scalar 0, Scalar 0]]
 \<and> column ''crs'' example_batch \<noteq> []
 \<and> list_all (\<lambda>v. \<not> is_Tensor v) (column ''crs'' example_batch)
 \<and> (\<exists>m. merge_samples example_batch = Inr m
       \<and> map_of m ''m'' = Some (Tensor (Arr [Scalar 3, Scalar 5, Scalar 0]))
       \<and> map_of m ''crs'' = Some (Obj ''b''))"
proof -
  have d: "\<forall>s \<in> set example_batch. distinct (map fst s)"
    by (simp add: example_batch_def)
  have h: "\<forall>k. column k example_batch = []
        \<or> (\<exists>t ts. column k example_batch = map Tensor (t # ts) \<and> rectangular t
              \<and> (\<forall>u \<in> set ts. rectangular u \<and> shape u = shape t))
        \<or> (\<forall>v \<in> set (column k example_batch). \<not> is_Tensor v)"
  proof
    fix k
    have "column ''m'' example_batch = map Tensor (Arr [Scalar 0, Scalar 5, Scalar 0] # [Arr [Scalar 3, Scalar 0, Scalar 0]])
        \<and> rectangular (Arr [Scalar 0, Scalar 5, Scalar 0])
        \<and> (\<forall>u \<in> set [Arr [Scalar 3, Scalar 0, Scalar 0]]. rectangular u \<and> shape u = shape (Arr [Scalar 0, Scalar 5, Scalar 0]))"
      by (simp add: example_batch_columns)
    then have m: "\<exists>t ts. column ''m'' example_batch = map Tensor (t # ts) \<and> rectangular t
              \<and> (\<forall>u \<in> set ts. rectangular u \<and> shape u = shape t)"
      by blast
    show "column k example_batch = []
        \<or> (\<exists>t ts. column k example_batch = map Tensor (t # ts) \<and> rectangular t
              \<and> (\<forall>u \<in> set ts. rectangular u \<and> shape u = shape t))
        \<or> (\<forall>v \<in> set (column k example_batch). \<not> is_Tensor v)"
    proof (cases "k = ''m''")
      case True
      with m show ?thesis by blast
    next
      case False
      then show ?thesis by (simp add: example_batch_columns)
    qed
  qed
  have c: "column ''m'' example_batch
      = map Tensor (Arr [Scalar 0, Scalar 5, Scalar 0] # [Arr [Scalar 3, Scalar 0, Scalar 0]])"
    "column ''crs'' example_batch \<noteq> []" "\<forall>v \<in> set (column ''crs'' example_batch). \<not> is_Tensor v"
    "last (column ''crs'' example_batch) = Obj ''b''"
    by (simp_all add: example_batch_columns)
  from merge_samples_maximum [OF d h] obtain m where
    m: "merge_samples example_batch = Inr m"
    and t: "\<forall>t ts. column ''m'' example_batch = map Tensor (t # ts) \<longrightarrow>
                  map_of m ''m'' = Some (Tensor (foldl elementwise_max t ts))"
    and o: "column ''crs'' example_batch \<noteq> [] \<and> (\<forall>v \<in> set (column ''crs'' example_batch). \<not> is_Tensor v) \<longrightarrow>
                  map_of m ''crs'' = Some (last (column ''crs'' example_batch))"
    by blast
  from t c(1) have "map_of m ''m'' = Some (Tensor (foldl elementwise_max (Arr [Scalar 0, Scalar 5, Scalar 0])
        [Arr [Scalar 3, Scalar 0, Scalar 0]]))"
    by blast
  then have "map_of m ''m'' = Some (Tensor (Arr [Scalar 3, Scalar 5, Scalar 0]))"
    by simp
  moreover from o c have "map_of m ''crs'' = Some (Obj ''b'')"
    by simp
  ultimately show ?thesis using d h c m by (simp add: list_all_iff)
qed


text \<open>
  The claim as written, for every batch, fails outside such batches. A key whose
  values are two tensors and then a string ends with the string, not with the
  maximum of the tensors; tensors of shapes \<open>(2)\<close> and \<open>(3)\<close> under one key make
  \<open>torch.maximum\<close> raise \<open>RuntimeError\<close>; and a string followed by a tensor makes it
  raise \<open>TypeError\<close>, so that no mapping is returned.
\<close>

theorem merge_samples_mixed_counterexample:
  "merge_samples [[(''m'', Tensor (Arr [Scalar 1, Scalar 2]))],
                  [(''m'', Tensor (Arr [Scalar 3, Scalar 4]))],
                  [(''m'', PStr ''x'')]]
     = Inr [(''m'', PStr ''x'')]
 \<and> merge_samples [[(''m'', Tensor (Arr [Scalar 1, Scalar 2]))],
                  [(''m'', Tensor (Arr [Scalar 1, Scalar 2, Scalar 3]))]]
     = Inl RuntimeError
 \<and> merge_samples [[(''m'', PStr ''x'')], [(''m'', Tensor (Arr [Scalar 1, Scalar 2]))]]
     = Inl TypeError"
  by (simp add: merge_samples_def merge_item_def torch_maximum_def rank_def)

subsection \<open>From a list of dicts to a dict of lists\<close>

lemma keys_map_values: "map fst (map (\<lambda>(k, v). (k, f k v)) c) = map fst c"
  by (induction c) auto

lemma key_set_map_values: "fst ` set (map (\<lambda>(k, v). (k, f k v)) c) = fst ` set c"
  by (induction c) auto

lemma append_item_present:
  "k \<in> fst ` set c \<Longrightarrow> distinct (map fst c) \<Longrightarrow>
   append_item k v c = map (\<lambda>(k', vs). (k', if k' = k then vs @ [v] else vs)) c"
proof (induction c)
  case Nil
  then show ?case by simp
next
  case (Cons kv c)
  obtain k0 vs0 where kv: "kv = (k0, vs0)" by (cases kv)
  show ?case
  proof (cases "k0 = k")
    case True
    with Cons.prems(2) have "k \<notin> fst ` set c" by (auto simp: kv)
    then have "map (\<lambda>(k', vs). (k', if k' = k then vs @ [v] else vs)) c = c"
      by (induction c) auto
    with True show ?thesis by (simp add: kv)
  next
    case False
    with Cons show ?thesis by (auto simp: kv)
  qed
qed

lemma append_item_absent: "k \<notin> fst ` set c \<Longrightarrow> append_item k v c = c @ [(k, [v])]"
  by (induction c) auto

lemma first_sample:
  "distinct (map fst s) \<Longrightarrow> fst ` set c \<inter> fst ` set s = {} \<Longrightarrow>
   foldl (\<lambda>c (key, v). append_item key v c) c s = c @ map (\<lambda>(k, v). (k, [v])) s"
proof (induction s arbitrary: c)
  case Nil
  show ?case by simp
next
  case (Cons kv s)
  obtain k v where kv: "kv = (k, v)" by (cases kv)
  from Cons.prems have fresh: "k \<notin> fst ` set c" and d: "distinct (map fst s)"
    and disj: "fst ` set (c @ [(k, [v])]) \<inter> fst ` set s = {}"
    by (auto simp: kv)
  show ?case
    using Cons.IH [OF d disj] by (simp add: kv append_item_absent [OF fresh])
qed

lemma later_sample:
  "distinct (map fst c) \<Longrightarrow> distinct (map fst s) \<Longrightarrow> fst ` set s \<subseteq> fst ` set c \<Longrightarrow>
   foldl (\<lambda>c (key, v). append_item key v c) c s = map (\<lambda>(k, vs). (k, vs @ cell s k)) c"
proof (induction s arbitrary: c)
  case Nil
  show ?case by (simp add: cell_def)
next
  case (Cons kv s)
  obtain k0 v0 where kv: "kv = (k0, v0)" by (cases kv)
  let ?c1 = "map (\<lambda>(k', vs). (k', if k' = k0 then vs @ [v0] else vs)) c"
  from Cons.prems have k0: "k0 \<in> fst ` set c" and fresh: "k0 \<notin> fst ` set s"
    and d: "distinct (map fst s)" and sub: "fst ` set s \<subseteq> fst ` set c"
    by (auto simp: kv)
  have d1: "distinct (map fst ?c1)" and sub1: "fst ` set s \<subseteq> fst ` set ?c1"
    using Cons.prems(1) sub by (simp_all only: keys_map_values key_set_map_values)
  have "foldl (\<lambda>c (key, v). append_item key v c) c (kv # s)
      = foldl (\<lambda>c (key, v). append_item key v c) ?c1 s"
    by (simp add: kv append_item_present [OF k0 Cons.prems(1)])
  also have "\<dots> = map (\<lambda>(k, vs). (k, vs @ cell s k)) ?c1"
    by (rule Cons.IH [OF d1 d sub1])
  also have "\<dots> = map (\<lambda>(k, vs). (k, vs @ cell (kv # s) k)) c"
    by (auto simp: kv cell_Cons cell_fresh [OF fresh])
  finally show ?case .
qed

lemma later_samples:
  "distinct (map fst c) \<Longrightarrow> \<forall>s \<in> set batch. distinct (map fst s) \<and> fst ` set s \<subseteq> fst ` set c \<Longrightarrow>
   foldl (\<lambda>collated sample. foldl (\<lambda>c (key, v). append_item key v c) collated sample) c batch
     = map (\<lambda>(k, vs). (k, vs @ column k batch)) c"
proof (induction batch arbitrary: c)
  case Nil
  show ?case by (simp add: column_Nil)
next
  case (Cons s batch)
  let ?c1 = "map (\<lambda>(k, vs). (k, vs @ cell s k)) c"
  from Cons.prems have ds: "distinct (map fst s)" and sub: "fst ` set s \<subseteq> fst ` set c"
    by simp_all
  have d1: "distinct (map fst ?c1)"
    using Cons.prems(1) by (simp only: keys_map_values)
  have rest: "\<forall>s \<in> set batch. distinct (map fst s) \<and> fst ` set s \<subseteq> fst ` set ?c1"
    using Cons.prems(2) unfolding key_set_map_values by simp
  have "foldl (\<lambda>collated sample. foldl (\<lambda>c (key, v). append_item key v c) collated sample) c (s # batch)
      = foldl (\<lambda>collated sample. foldl (\<lambda>c (key, v). append_item key v c) collated sample) ?c1 batch"
    by (simp add: later_sample [OF Cons.prems(1) ds sub])
  also have "\<dots> = map (\<lambda>(k, vs). (k, vs @ column k batch)) ?c1"
    by (rule Cons.IH [OF d1 rest])
  also have "\<dots> = map (\<lambda>(k, vs). (k, vs @ column k (s # batch))) c"
    by (auto simp: column_Cons)
  finally show ?case .
qed

lemma cell_present: "distinct (map fst s) \<Longrightarrow> (k, v) \<in> set s \<Longrightarrow> cell s k = [v]"
  by (simp add: cell_def)

lemma list_dict_to_dict_list_columns:
  assumes "distinct (map fst s)"
    and "\<forall>s' \<in> set batch. distinct (map fst s') \<and> fst ` set s' \<subseteq> fst ` set s"
  shows "list_dict_to_dict_list (s # batch) = map (\<lambda>(k, v). (k, column k (s # batch))) s"
proof -
  let ?c = "map (\<lambda>(k, v). (k, [v])) s"
  have first: "foldl (\<lambda>c (key, v). append_item key v c) [] s = ?c"
    using first_sample [OF assms(1), of "[]"] by simp
  have d: "distinct (map fst ?c)"
    using assms(1) by (simp only: keys_map_values)
  have rest: "\<forall>s' \<in> set batch. distinct (map fst s') \<and> fst ` set s' \<subseteq> fst ` set ?c"
    using assms(2) unfolding key_set_map_values by simp
  have "list_dict_to_dict_list (s # batch) = map (\<lambda>(k, vs). (k, vs @ column k batch)) ?c"
    using later_samples [OF d rest] by (simp add: list_dict_to_dict_list_def first)
  also have "\<dots> = map (\<lambda>(k, v). (k, column k (s # batch))) s"
    using cell_present [OF assms(1)] by (auto simp: column_Cons)
  finally show ?thesis .
qed

subsection \<open>Stacking the columns\<close>

lemma tensors_of_map_Tensor: "tensors_of (map Tensor ts) = Some ts"
  by (induction ts) auto

lemma tensors_of_not_Tensor: "\<not> is_Tensor v \<Longrightarrow> tensors_of (v # vs) = None"
  by (cases v) auto

lemma stack_value_tensors:
  "ts \<noteq> [] \<Longrightarrow> \<forall>u \<in> set ts. shape u = shape (hd ts) \<Longrightarrow>
   stack_value (map Tensor ts) = Inr (stacked (map Tensor ts))
   \<and> stacked (map Tensor ts) = Tensor (Arr ts)"
  by (cases ts) (simp_all add: stack_value_def stacked_def tensors_of_map_Tensor torch_stack_def)

lemma stack_value_others:
  "vs \<noteq> [] \<Longrightarrow> \<not> is_Tensor (hd vs) \<Longrightarrow>
   stack_value vs = Inr (stacked vs) \<and> stacked vs = PList vs"
  by (cases vs) (simp_all add: stack_value_def stacked_def tensors_of_not_Tensor)

lemma map_values_columns:
  "\<forall>(k, v) \<in> set s. f (h k) = Inr (g (h k)) \<Longrightarrow>
   map_values f (map (\<lambda>(k, v). (k, h k)) s) = Inr (map (\<lambda>(k, v). (k, g (h k))) s)"
  by (induction s) auto

lemma column_all_present:
  "\<forall>s \<in> set batch. k \<in> fst ` set s \<Longrightarrow> column k batch = map (\<lambda>s. the (map_of s k)) batch"
proof (induction batch)
  case Nil
  show ?case by (simp add: column_Nil)
next
  case (Cons s batch)
  then have "k \<in> fst ` set s" by simp
  then obtain v where "map_of s k = Some v"
    using map_of_eq_None_iff [of s k] by (cases "map_of s k") auto
  with Cons show ?case by (simp add: column_Cons cell_def)
qed

subsection \<open>From a dict of sequences to a list of dicts\<close>

lemma assign_column_nth:
  "i < length ds \<Longrightarrow>
   assign_column k vs ds ! i = (if i < length vs then AList.update k (vs ! i) (ds ! i) else ds ! i)"
proof (induction k vs ds arbitrary: i rule: assign_column.induct)
  case (3 k v vs d ds)
  then show ?case by (cases i) auto
qed auto

lemma assign_columns_length:
  "length (foldl (\<lambda>uncollated (key, vs). assign_column key (py_iter vs) uncollated) u d) = length u"
  by (induction d arbitrary: u) (auto simp: assign_column_length)

lemma assign_columns_nth:
  "i < length u \<Longrightarrow>
   foldl (\<lambda>uncollated (key, vs). assign_column key (py_iter vs) uncollated) u d ! i
     = foldl (\<lambda>dct (key, vs). if i < length (py_iter vs) then AList.update key (py_iter vs ! i) dct else dct)
         (u ! i) d"
proof (induction d arbitrary: u)
  case Nil
  show ?case by simp
next
  case (Cons kv d)
  obtain k v where kv: "kv = (k, v)" by (cases kv)
  have i: "i < length (assign_column k (py_iter v) u)"
    using Cons.prems by (simp add: assign_column_length)
  show ?case
    using Cons.IH [OF i] Cons.prems by (simp add: kv assign_column_nth)
qed

lemma update_fresh: "k \<notin> fst ` set d \<Longrightarrow> AList.update k v d = d @ [(k, v)]"
  by (induction d) auto

lemma updates_distinct:
  "distinct (map fst (pre @ d)) \<Longrightarrow>
   foldl (\<lambda>dct (key, vs). AList.update key (g vs) dct) pre d = pre @ map (\<lambda>(k, v). (k, g v)) d"
proof (induction d arbitrary: pre)
  case Nil
  show ?case by simp
next
  case (Cons kv d)
  obtain k v where kv: "kv = (k, v)" by (cases kv)
  from Cons.prems have fresh: "k \<notin> fst ` set pre" and d: "distinct (map fst ((pre @ [(k, g v)]) @ d))"
    by (auto simp: kv)
  show ?case
    using Cons.IH [OF d] by (simp add: kv update_fresh [OF fresh])
qed

lemma lengths_same:
  "\<forall>v \<in> set vs. py_len v = Inr n \<Longrightarrow> lengths vs = Inr (replicate (length vs) n)"
  by (induction vs) auto

lemma fold_max_replicate: "0 < m \<Longrightarrow> fold max (replicate m n) (0::nat) = n"
proof -
  have "fold max (replicate m n) a = (if m = 0 then a else max n a)" for a
    by (induction m arbitrary: a) auto
  then show "0 < m \<Longrightarrow> fold max (replicate m n) (0::nat) = n" by simp
qed

lemma dict_list_to_list_dict_transposes:
  assumes "d \<noteq> []" and "distinct (map fst d)"
    and "\<forall>(k, v) \<in> set d. py_len v = Inr n \<and> length (py_iter v) = n"
  shows "dict_list_to_list_dict d = Inr (map (\<lambda>i. map (\<lambda>(k, v). (k, py_iter v ! i)) d) [0..<n])"
proof -
  have "\<forall>v \<in> set (map snd d). py_len v = Inr n"
    using assms(3) by auto
  then have ls: "lengths (map snd d) = Inr (replicate (length d) n)"
    using lengths_same [of "map snd d" n] by simp
  have mx: "fold max (replicate (length d) n) 0 = n"
    by (rule fold_max_replicate) (use assms(1) in simp)
  let ?r = "foldl (\<lambda>uncollated (key, vs). assign_column key (py_iter vs) uncollated) (replicate n []) d"
  have res: "dict_list_to_list_dict d = Inr ?r"
    using assms(1) by (simp add: dict_list_to_list_dict_def ls mx del: fold_replicate)
  have len: "length ?r = n"
    by (simp add: assign_columns_length)
  have nth: "?r ! i = map (\<lambda>(k, v). (k, py_iter v ! i)) d" if "i < n" for i
  proof -
    have "?r ! i = foldl (\<lambda>dct (key, vs). if i < length (py_iter vs) then AList.update key (py_iter vs ! i) dct else dct) [] d"
      using that assign_columns_nth [of i "replicate n []" d] by simp
    also have "\<dots> = foldl (\<lambda>dct (key, vs). AList.update key (py_iter vs ! i) dct) [] d"
      using assms(3) that by (intro foldl_cong) auto
    also have "\<dots> = map (\<lambda>(k, v). (k, py_iter v ! i)) d"
      using updates_distinct [of "[]" d "\<lambda>v. py_iter v ! i"] assms(2) by simp
    finally show ?thesis .
  qed
  have "?r = map (\<lambda>i. map (\<lambda>(k, v). (k, py_iter v ! i)) d) [0..<n]"
    by (rule nth_equalityI) (simp_all add: len nth)
  with res show ?thesis by simp
qed

subsection \<open>Unbinding what was stacked\<close>

lemma unbound_stacked_tensors:
  "py_iter (unbound (stacked (map Tensor ts))) = map Tensor ts
   \<and> py_len (unbound (stacked (map Tensor ts))) = Inr (length ts)"
  by (simp add: stacked_def tensors_of_map_Tensor)

lemma unbound_stacked_others:
  "vs \<noteq> [] \<Longrightarrow> \<not> is_Tensor (hd vs) \<Longrightarrow>
   py_iter (unbound (stacked vs)) = vs \<and> py_len (unbound (stacked vs)) = Inr (length vs)"
  by (cases vs) (simp_all add: stacked_def tensors_of_not_Tensor)

lemma stacked_not_Scalar: "stacked vs \<noteq> Tensor (Scalar x)"
  by (simp add: stacked_def split: option.splits)

text \<open>A sample read in the key order of another sample with the same keys.\<close>

lemma map_of_nth: "distinct (map fst s) \<Longrightarrow> i < length s \<Longrightarrow> map_of s (fst (s ! i)) = Some (snd (s ! i))"
  by (simp add: map_of_eq_Some_iff [of s] nth_mem)

lemma reorder_same_order:
  assumes "distinct (map fst s)" and "map fst s = map fst s1"
  shows "map (\<lambda>(k, v). (k, the (map_of s k))) s1 = s"
proof (rule nth_equalityI)
  from assms(2) have len: "length s = length s1"
    using length_map [of fst s] length_map [of fst s1] by simp
  then show "length (map (\<lambda>(k, v). (k, the (map_of s k))) s1) = length s" by simp
  fix i assume "i < length (map (\<lambda>(k, v). (k, the (map_of s k))) s1)"
  then have i: "i < length s" "i < length s1" using len by simp_all
  from assms(2) i have "fst (s1 ! i) = fst (s ! i)"
    using nth_map [of i s fst] nth_map [of i s1 fst] by simp
  then show "map (\<lambda>(k, v). (k, the (map_of s k))) s1 ! i = s ! i"
    using map_of_nth [OF assms(1) i(1)] i by (simp add: case_prod_unfold)
qed

lemma reorder_dict_eq:
  assumes "distinct (map fst s1)" and "distinct (map fst s)" and "fst ` set s = fst ` set s1"
  shows "dict_eq (map (\<lambda>(k, v). (k, the (map_of s k))) s1) s"
proof -
  let ?r = "map (\<lambda>(k, v). (k, the (map_of s k))) s1"
  have d: "distinct (map fst ?r)"
    using assms(1) by (simp only: keys_map_values)
  have "set ?r = set s"
  proof (intro set_eqI iffI)
    fix kv assume "kv \<in> set ?r"
    then obtain k v where k: "(k, v) \<in> set s1" and kv: "kv = (k, the (map_of s k))"
      by auto
    from k assms(3) have "k \<in> fst ` set s" by force
    then obtain w where "(k, w) \<in> set s" by auto
    with assms(2) have "map_of s k = Some w" "(k, w) \<in> set s" by simp_all
    then show "kv \<in> set s" by (simp add: kv)
  next
    fix kv assume kvs: "kv \<in> set s"
    obtain k w where kv: "kv = (k, w)" by (cases kv)
    with kvs assms(2) have m: "map_of s k = Some w" by simp
    from kvs kv assms(3) have "k \<in> fst ` set s1" by force
    then obtain v where "(k, v) \<in> set s1" by auto
    then have "(k, the (map_of s k)) \<in> set ?r" by force
    with m show "kv \<in> set ?r" by (simp add: kv)
  qed
  with d assms(2) show ?thesis by (simp add: dict_eq_def)
qed

text \<open>
  Claim C7, as the code has it. Take a batch that is not empty, of dicts with the
  same keys, at least one key, in which under every key either all values are
  tensors of one shape, or the value of the first sample is not a tensor (the key
  is then kept as the list of its values). Then \<open>stack_samples\<close> returns a sample
  that holds, under each key with tensor values, the tensor whose slices are those
  values, of shape batch size followed by their shape; and \<open>unbind_samples\<close> of that
  sample returns as many dicts as the batch has, each equal as a dict to the sample
  at its position, and the batch itself when all samples list their keys in the
  same order.
\<close>

theorem unbind_stack_roundtrip:
  assumes ne: "batch \<noteq> []" and keys: "hd batch \<noteq> []"
    and dicts: "\<forall>s \<in> set batch. distinct (map fst s) \<and> fst ` set s = fst ` set (hd batch)"
    and cols: "\<forall>k \<in> fst ` set (hd batch).
        (\<exists>ts. column k batch = map Tensor ts \<and> (\<forall>u \<in> set ts. shape u = shape (hd ts)))
        \<or> \<not> is_Tensor (hd (column k batch))"
  shows "\<exists>st. stack_samples batch = Inr st
      \<and> (\<forall>k ts. k \<in> fst ` set (hd batch) \<and> column k batch = map Tensor ts \<longrightarrow>
             map_of st k = Some (Tensor (Arr ts)) \<and> shape (Arr ts) = length batch # shape (hd ts))
      \<and> (\<exists>st' r. unbind_samples st = (st', Inr r) \<and> length r = length batch
             \<and> (\<forall>i < length batch. dict_eq (r ! i) (batch ! i))
             \<and> ((\<forall>s \<in> set batch. map fst s = map fst (hd batch)) \<longrightarrow> r = batch))"
proof -
  obtain s1 rest where batch: "batch = s1 # rest"
    using ne by (cases batch) auto
  have hd1: "hd batch = s1" by (simp add: batch)
  have dicts': "\<forall>s \<in> set batch. distinct (map fst s) \<and> fst ` set s = fst ` set s1"
    using dicts unfolding hd1 .
  let ?n = "length batch"
  let ?st = "map (\<lambda>(k, v). (k, stacked (column k batch))) s1"
  let ?st' = "map (\<lambda>(k, v). (k, unbound (stacked (column k batch)))) s1"
  let ?r = "map (\<lambda>s. map (\<lambda>(k, v). (k, the (map_of s k))) s1) batch"
  have d1: "distinct (map fst s1)" using dicts by (simp add: batch)
  have s1_ne: "s1 \<noteq> []" using keys by (simp add: batch)
  have present: "\<forall>s \<in> set batch. k \<in> fst ` set s" if "k \<in> fst ` set s1" for k
    using dicts that by (simp add: batch)
  have col: "column k batch = map (\<lambda>s. the (map_of s k)) batch" if "k \<in> fst ` set s1" for k
    using column_all_present [OF present [OF that]] .
  have col_len: "length (column k batch) = ?n" if "k \<in> fst ` set s1" for k
    by (simp add: col [OF that])
  have col_ne: "column k batch \<noteq> []" if "k \<in> fst ` set s1" for k
    using col_len [OF that] by (auto simp: batch)
  have kinds: "(\<exists>ts. ts \<noteq> [] \<and> column k batch = map Tensor ts \<and> (\<forall>u \<in> set ts. shape u = shape (hd ts)))
      \<or> (column k batch \<noteq> [] \<and> \<not> is_Tensor (hd (column k batch)))" if "k \<in> fst ` set s1" for k
    using cols [rule_format, of k] that col_ne [OF that] by (auto simp: batch)
  have stack_ok: "stack_value (column k batch) = Inr (stacked (column k batch))"
    if "k \<in> fst ` set s1" for k
  proof -
    from kinds [OF that] consider
      ts where "ts \<noteq> []" "column k batch = map Tensor ts" "\<forall>u \<in> set ts. shape u = shape (hd ts)"
      | "column k batch \<noteq> []" "\<not> is_Tensor (hd (column k batch))"
      by blast
    then show ?thesis
    proof cases
      case 1
      from stack_value_tensors [OF 1(1,3)] show ?thesis by (simp only: 1(2))
    next
      case 2
      from stack_value_others [OF 2] show ?thesis by blast
    qed
  qed
  have unb: "py_iter (unbound (stacked (column k batch))) = column k batch
      \<and> py_len (unbound (stacked (column k batch))) = Inr ?n" if "k \<in> fst ` set s1" for k
  proof -
    from kinds [OF that] consider
      ts where "ts \<noteq> []" "column k batch = map Tensor ts" "\<forall>u \<in> set ts. shape u = shape (hd ts)"
      | "column k batch \<noteq> []" "\<not> is_Tensor (hd (column k batch))"
      by blast
    then show ?thesis
    proof cases
      case 1
      from unbound_stacked_tensors [of ts] col_len [OF that] show ?thesis
        by (simp add: 1(2))
    next
      case 2
      from unbound_stacked_others [OF 2] col_len [OF that] show ?thesis by simp
    qed
  qed
  \<comment> \<open>stacking\<close>
  have ldl: "list_dict_to_dict_list batch = map (\<lambda>(k, v). (k, column k batch)) s1"
    unfolding batch
    by (rule list_dict_to_dict_list_columns [OF d1]) (use dicts in \<open>simp add: batch\<close>)
  have "\<forall>(k, v) \<in> set s1. stack_value (column k batch) = Inr (stacked (column k batch))"
    using stack_ok by force
  then have st: "stack_samples batch = Inr ?st"
    unfolding stack_samples_def ldl by (rule map_values_columns)
  \<comment> \<open>what the stacked sample holds\<close>
  have holds: "map_of ?st k = Some (Tensor (Arr ts)) \<and> shape (Arr ts) = ?n # shape (hd ts)"
    if k: "k \<in> fst ` set s1" and c: "column k batch = map Tensor ts" for k ts
  proof -
    from k obtain v where v: "(k, v) \<in> set s1" by auto
    have dst: "distinct (map fst ?st)" using d1 by (simp only: keys_map_values)
    from v have "(k, stacked (column k batch)) \<in> set ?st" by force
    with dst have "map_of ?st k = Some (stacked (column k batch))" by simp
    moreover have "stacked (column k batch) = Tensor (Arr ts)"
      by (simp add: c stacked_def tensors_of_map_Tensor)
    moreover have "length ts = ?n" using col_len [OF k] c by simp
    moreover from this have "ts \<noteq> []" by (auto simp: batch)
    ultimately show ?thesis by (cases ts) simp_all
  qed
  \<comment> \<open>unbinding\<close>
  have dst: "distinct (map fst ([] @ ?st))" using d1 by (simp only: keys_map_values append_Nil)
  have nz: "\<forall>k x. (k, Tensor (Scalar x)) \<notin> set ?st"
  proof (intro allI notI)
    fix k x assume "(k, Tensor (Scalar x)) \<in> set ?st"
    then have "Tensor (Scalar x) = stacked (column k batch)" by auto
    then show False using stacked_not_Scalar [of "column k batch" x] by simp
  qed
  have ul: "unbind_loop ?st ?st = (map (\<lambda>(k, v). (k, unbound v)) ?st, None)"
    using unbind_loop_distinct [OF dst nz] by (simp only: append_Nil)
  have eq: "map (\<lambda>(k, v). (k, unbound v)) ?st = ?st'"
    by (induction s1) auto
  have ub: "unbind_samples ?st = (?st', dict_list_to_list_dict ?st')"
    unfolding unbind_samples_def ul eq by simp
  have "dict_list_to_list_dict ?st' = Inr (map (\<lambda>i. map (\<lambda>(k, v). (k, py_iter v ! i)) ?st') [0..<?n])"
  proof (rule dict_list_to_list_dict_transposes)
    show "?st' \<noteq> []" using s1_ne by simp
    show "distinct (map fst ?st')" using d1 by (simp only: keys_map_values)
    show "\<forall>(k, v) \<in> set ?st'. py_len v = Inr ?n \<and> length (py_iter v) = ?n"
      using unb col_len by force
  qed
  moreover have "map (\<lambda>i. map (\<lambda>(k, v). (k, py_iter v ! i)) ?st') [0..<?n] = ?r"
  proof (rule nth_equalityI)
    show "length (map (\<lambda>i. map (\<lambda>(k, v). (k, py_iter v ! i)) ?st') [0..<?n]) = length ?r" by simp
    fix i assume "i < length (map (\<lambda>i. map (\<lambda>(k, v). (k, py_iter v ! i)) ?st') [0..<?n])"
    then have i: "i < ?n" by simp
    have "map (\<lambda>(k, v). (k, py_iter v ! i)) ?st' = map (\<lambda>(k, v). (k, the (map_of (batch ! i) k))) s1"
    proof -
      have "py_iter (unbound (stacked (column k batch))) ! i = the (map_of (batch ! i) k)"
        if "(k, v) \<in> set s1" for k v
      proof -
        from that have k: "k \<in> fst ` set s1" by force
        show ?thesis using unb [OF k] col [OF k] i by simp
      qed
      then show ?thesis by (auto simp: comp_def)
    qed
    with i show "map (\<lambda>i. map (\<lambda>(k, v). (k, py_iter v ! i)) ?st') [0..<?n] ! i = ?r ! i"
      by simp
  qed
  ultimately have res: "unbind_samples ?st = (?st', Inr ?r)"
    using ub by simp
  have eqs: "\<forall>i < ?n. dict_eq (?r ! i) (batch ! i)"
  proof (intro allI impI)
    fix i assume i: "i < ?n"
    then have "batch ! i \<in> set batch" by simp
    with dicts' have "distinct (map fst (batch ! i))" "fst ` set (batch ! i) = fst ` set s1"
      by blast+
    from reorder_dict_eq [OF d1 this] i show "dict_eq (?r ! i) (batch ! i)" by simp
  qed
  have same: "?r = batch" if "\<forall>s \<in> set batch. map fst s = map fst (hd batch)"
  proof -
    have "map (\<lambda>(k, v). (k, the (map_of s k))) s1 = s" if s: "s \<in> set batch" for s
    proof (rule reorder_same_order)
      show "distinct (map fst s)" using dicts' s by blast
      show "map fst s = map fst s1"
        using \<open>\<forall>s \<in> set batch. map fst s = map fst (hd batch)\<close> s unfolding hd1 by blast
    qed
    then show ?thesis by (simp add: map_idI)
  qed
  have tensors: "\<forall>k ts. k \<in> fst ` set (hd batch) \<and> column k batch = map Tensor ts \<longrightarrow>
      map_of ?st k = Some (Tensor (Arr ts)) \<and> shape (Arr ts) = length batch # shape (hd ts)"
    using holds unfolding hd1 by blast
  have unbinds: "\<exists>st' r. unbind_samples ?st = (st', Inr r) \<and> length r = length batch
      \<and> (\<forall>i < length batch. dict_eq (r ! i) (batch ! i))
      \<and> ((\<forall>s \<in> set batch. map fst s = map fst (hd batch)) \<longrightarrow> r = batch)"
  proof (intro exI conjI)
    show "unbind_samples ?st = (?st', Inr ?r)" by (rule res)
    show "length ?r = length batch" by simp
    show "\<forall>i < length batch. dict_eq (?r ! i) (batch ! i)" by (rule eqs)
    show "(\<forall>s \<in> set batch. map fst s = map fst (hd batch)) \<longrightarrow> ?r = batch"
      using same by blast
  qed
  from st tensors unbinds show ?thesis by blast
qed

lemma example_pair_columns:
  "column k example_pair =
     (if k = ''a'' then map Tensor [example_array1, example_array2]
      else if k = ''crs'' then [Obj ''c'', Obj ''d''] else [])"
  by (simp add: column_def example_pair_def)

lemma example_array_shapes: "shape example_array1 = [3, 3]" "shape example_array2 = [3, 3]"
  by (simp_all add: example_array1_def example_array2_def)

theorem unbind_stack_roundtrip_witness:
  "example_pair \<noteq> [] \<and> hd example_pair \<noteq> []
 \<and> list_all (\<lambda>s. distinct (map fst s) \<and> fst ` set s = fst ` set (hd example_pair)) example_pair
 \<and> column ''a'' example_pair = map Tensor [example_array1, example_array2]
 \<and> shape example_array1 = [3, 3] \<and> shape example_array2 = [3, 3]
 \<and> \<not> is_Tensor (hd (column ''crs'' example_pair))
 \<and> (\<exists>st. stack_samples example_pair = Inr st
       \<and> map_of st ''a'' = Some (Tensor (Arr [example_array1, example_array2]))
       \<and> shape (Arr [example_array1, example_array2]) = [2, 3, 3]
       \<and> (\<exists>st'. unbind_samples st = (st', Inr example_pair)))"
proof -
  have ne: "example_pair \<noteq> []" and keys: "hd example_pair \<noteq> []"
    by (simp_all add: example_pair_def)
  have dicts: "\<forall>s \<in> set example_pair. distinct (map fst s) \<and> fst ` set s = fst ` set (hd example_pair)"
    by (simp add: example_pair_def)
  have a: "column ''a'' example_pair = map Tensor [example_array1, example_array2]"
    and crs: "\<not> is_Tensor (hd (column ''crs'' example_pair))"
    by (simp_all add: example_pair_columns)
  have same_shape: "\<forall>u \<in> set [example_array1, example_array2]. shape u = shape (hd [example_array1, example_array2])"
    by (simp add: example_array_shapes)
  have cols: "\<forall>k \<in> fst ` set (hd example_pair).
        (\<exists>ts. column k example_pair = map Tensor ts \<and> (\<forall>u \<in> set ts. shape u = shape (hd ts)))
        \<or> \<not> is_Tensor (hd (column k example_pair))"
  proof
    fix k assume "k \<in> fst ` set (hd example_pair)"
    then consider "k = ''a''" | "k = ''crs''"
      by (auto simp: example_pair_def)
    then show "(\<exists>ts. column k example_pair = map Tensor ts \<and> (\<forall>u \<in> set ts. shape u = shape (hd ts)))
        \<or> \<not> is_Tensor (hd (column k example_pair))"
    proof cases
      case 1
      with a same_shape show ?thesis by blast
    next
      case 2
      with crs show ?thesis by blast
    qed
  qed
  have order: "\<forall>s \<in> set example_pair. map fst s = map fst (hd example_pair)"
    by (simp add: example_pair_def)
  have ina: "''a'' \<in> fst ` set (hd example_pair)"
    by (simp add: example_pair_def)
  from unbind_stack_roundtrip [OF ne keys dicts cols] obtain st st' r where
    st: "stack_samples example_pair = Inr st"
    and t: "\<forall>k ts. k \<in> fst ` set (hd example_pair) \<and> column k example_pair = map Tensor ts \<longrightarrow>
             map_of st k = Some (Tensor (Arr ts)) \<and> shape (Arr ts) = length example_pair # shape (hd ts)"
    and u: "unbind_samples st = (st', Inr r)"
    and o: "(\<forall>s \<in> set example_pair. map fst s = map fst (hd example_pair)) \<longrightarrow> r = example_pair"
    by blast
  have "map_of st ''a'' = Some (Tensor (Arr [example_array1, example_array2]))
      \<and> shape (Arr [example_array1, example_array2])
          = length example_pair # shape (hd [example_array1, example_array2])"
    by (rule t [rule_format, OF conjI [OF ina a]])
  then have m: "map_of st ''a'' = Some (Tensor (Arr [example_array1, example_array2]))"
    and sh: "shape (Arr [example_array1, example_array2]) = [2, 3, 3]"
    by (simp_all add: example_array_shapes example_pair_def)
  have "r = example_pair" by (rule mp [OF o order])
  with u have "unbind_samples st = (st', Inr example_pair)" by (simp only:)
  then have "\<exists>st'. unbind_samples st = (st', Inr example_pair)" by (rule exI)
  with st m sh have "stack_samples example_pair = Inr st
       \<and> map_of st ''a'' = Some (Tensor (Arr [example_array1, example_array2]))
       \<and> shape (Arr [example_array1, example_array2]) = [2, 3, 3]
       \<and> (\<exists>st'. unbind_samples st = (st', Inr example_pair))"
    by (intro conjI)
  then have "\<exists>st. stack_samples example_pair = Inr st
       \<and> map_of st ''a'' = Some (Tensor (Arr [example_array1, example_array2]))
       \<and> shape (Arr [example_array1, example_array2]) = [2, 3, 3]
       \<and> (\<exists>st'. unbind_samples st = (st', Inr example_pair))"
    by (rule exI)
  moreover have "list_all (\<lambda>s. distinct (map fst s) \<and> fst ` set s = fst ` set (hd example_pair)) example_pair"
    using dicts by (simp only: list_all_iff)
  ultimately show ?thesis
    using ne keys a crs example_array_shapes by (intro conjI)
qed

text \<open>
  The claim as written fails at the empty batch: stacking it gives the empty
  sample, and unbinding that raises \<open>ValueError\<close> (the \<open>max\<close> of no lengths) instead
  of returning the empty batch. It also fails for a key that holds a tensor in the
  first sample and a string in the second: the only array under the key has one
  shape, and \<open>torch.stack\<close> raises \<open>TypeError\<close> on the list.
\<close>

theorem unbind_stack_roundtrip_counterexample:
  "stack_samples [] = Inr []
 \<and> unbind_samples [] = ([], Inl ValueError_max_empty)
 \<and> snd (unbind_samples []) \<noteq> Inr []
 \<and> stack_samples [[(''k'', Tensor (Arr [Scalar 1, Scalar 2]))], [(''k'', PStr ''x'')]]
     = Inl TypeError"
  by (simp add: stack_samples_def list_dict_to_dict_list_def unbind_samples_def
                dict_list_to_list_dict_def stack_value_def)

end
